theory Spec2Isabelle
  imports Complex_Main "HOL-Library.Log_Nat"
begin

text \<open>
  A model of \<open>jin.py\<close>: the allow-list filter and the producer and consumer loops of
  the uploader with their shared counters, the geolocation fallback, the two derivations
  of the combined identifier, and the battery bar. What the program reads from outside
  (file sizes, directory listings, HTTP answers) and what the interpreter does by its own
  tables and limits (\<open>str.lower\<close>, the parsing and printing of floats, the room left for
  a string) is an argument of the function that uses it. The definitions come first, the
  properties after them.
\<close>

section \<open>Paths: the parts of \<open>os.path\<close> and \<open>str\<close> the uploader uses\<close>

text \<open>
  A path is a \<open>string\<close>: the bytes of the \<open>str\<close> in UTF-8, in which the separator and
  the dot are one byte each and occur in no other character. \<open>str.lower\<close> follows the
  Unicode tables of the interpreter; it is the argument \<open>lower\<close> of the functions that call
  it.

  For the examples, \<open>sample_lower\<close> is \<open>str.lower\<close> on text made of ASCII characters
  and of the Kelvin sign U+212A (the bytes E2 84 AA), which \<open>str.lower\<close> turns into \<open>k\<close>.
\<close>

definition lower_char :: "char \<Rightarrow> char" where
  "lower_char c =
     (case map_of (zip ''ABCDEFGHIJKLMNOPQRSTUVWXYZ'' ''abcdefghijklmnopqrstuvwxyz'') c of
        None \<Rightarrow> c
      | Some d \<Rightarrow> d)"

definition KELVIN :: string where
  "KELVIN = [CHR 0xE2, CHR 0x84, CHR 0xAA]"

fun sample_lower :: "string \<Rightarrow> string" where
  "sample_lower (a # b # c # s) =
     (if [a, b, c] = [CHR 0xE2, CHR 0x84, CHR 0xAA] then CHR ''k'' # sample_lower s
      else lower_char a # sample_lower (b # c # s))"
| "sample_lower (a # s) = lower_char a # sample_lower s"
| "sample_lower [] = []"

text \<open>\<open>str.rfind\<close> for a one-character needle: the last index, or \<open>-1\<close>.\<close>

definition rfind :: "char \<Rightarrow> string \<Rightarrow> int" where
  "rfind c s =
     (if c \<in> set s
      then int (length s) - 1 - int (length (takeWhile (\<lambda>x. x \<noteq> c) (rev s)))
      else - 1)"

text \<open>
  \<open>os.path.splitext\<close> (posixpath, separator \<open>/\<close>): the extension starts at the last dot,
  when that dot comes after the last separator and some character between the separator
  and the dot is not a dot (the \<open>while\<close> loop over the leading dots).
\<close>

definition splitext :: "string \<Rightarrow> string \<times> string" where
  "splitext p =
     (let sepIndex = rfind (CHR ''/'') p;
          dotIndex = rfind (CHR ''.'') p;
          filenameIndex = sepIndex + 1
      in if dotIndex > sepIndex \<and>
            list_ex (\<lambda>ch. ch \<noteq> CHR ''.'')
              (take (nat (dotIndex - filenameIndex)) (drop (nat filenameIndex) p))
         then (take (nat dotIndex) p, drop (nat dotIndex) p)
         else (p, []))"

text \<open>\<open>os.path.join\<close> (posixpath) of two components.\<close>

definition join :: "string \<Rightarrow> string \<Rightarrow> string" where
  "join a b =
     (if b \<noteq> [] \<and> hd b = CHR ''/'' then b
      else if a = [] \<or> last a = CHR ''/'' then a @ b
      else a @ ''/'' @ b)"

section \<open>Configuration and the shared counters\<close>

definition ALLOWED_EXTS :: "string set" where
  "ALLOWED_EXTS = {''.jpg'', ''.jpeg'', ''.png'', ''.webp'', ''.gif'',
                   ''.mp4'', ''.mkv'', ''.mov'', ''.avi'', ''.3gp'', ''.heic''}"

definition MAX_FILE_SIZE :: nat where
  "MAX_FILE_SIZE = 2 * 1024 * 1024 * 1024"

definition WORKERS :: nat where
  "WORKERS = 12"

definition FOLDERS_TO_SCAN :: "string list" where
  "FOLDERS_TO_SCAN = [''/sdcard/DCIM'', ''/sdcard/Pictures'', ''/sdcard/Movies'',
                      ''/sdcard/Download'']"

record counters =
  found :: int
  queued :: int
  sent :: int
  skipped :: int
  errors :: int

definition counters0 :: counters where
  "counters0 = \<lparr>found = 0, queued = 0, sent = 0, skipped = 0, errors = 0\<rparr>"

section \<open>The allow-list classifier\<close>

text \<open>
  \<open>os.path.getsize\<close> is the argument \<open>getsize\<close>: \<open>None\<close> when it raises (a missing
  or unreadable file), else the size in bytes. The function returns its result and the
  counters as it leaves them.
\<close>

definition is_allowed_file ::
    "(string \<Rightarrow> string) \<Rightarrow> (string \<Rightarrow> nat option) \<Rightarrow> counters \<Rightarrow> string \<Rightarrow> bool \<times> counters" where
  "is_allowed_file lower getsize c path =
     (let ext = lower (snd (splitext path))
      in if ext \<notin> ALLOWED_EXTS then (False, c)
         else case getsize path of
                None \<Rightarrow> (False, c\<lparr>errors := errors c + 1\<rparr>)
              | Some sz \<Rightarrow>
                  if sz = 0 then (False, c)
                  else if sz > MAX_FILE_SIZE then (False, c\<lparr>skipped := skipped c + 1\<rparr>)
                  else (True, c))"


section \<open>The producer: scanning the folders\<close>

text \<open>
  What the scan takes from outside: \<open>str.lower\<close> of the interpreter,
  \<open>os.path.exists\<close>, the triples \<open>os.walk\<close> yields for a folder,
  \<open>os.path.getsize\<close>, for each path the number of times
  \<open>file_queue.put\<close> times out (queue full) before it succeeds, and for each of the
  end-of-stream markers whether its single put succeeds.
\<close>

record scan_env =
  env_lower :: "string \<Rightarrow> string"
  env_exists :: "string \<Rightarrow> bool"
  env_walk :: "string \<Rightarrow> (string \<times> string list \<times> string list) list"
  env_getsize :: "string \<Rightarrow> nat option"
  env_full :: "string \<Rightarrow> nat"
  env_marker_ok :: "nat \<Rightarrow> bool"

text \<open>The state the producer changes: the counters and the queue (\<open>None\<close> is the marker).\<close>

record scan_state =
  cnt :: counters
  fq :: "string option list"

text \<open>
  The loop \<open>while not stop_flag.is_set(): try: put ... break; except: sleep\<close>, entered with
  the stop signal clear: \<open>n\<close> timeouts, then the put succeeds and \<open>queued\<close> grows.
\<close>

fun put_retry :: "nat \<Rightarrow> scan_state \<Rightarrow> string \<Rightarrow> scan_state" where
  "put_retry 0 s full =
     s\<lparr>fq := fq s @ [Some full], cnt := (cnt s)\<lparr>queued := queued (cnt s) + 1\<rparr>\<rparr>"
| "put_retry (Suc n) s full = put_retry n s full"

text \<open>The body of \<open>for fn in files\<close>. The stop signal is the value \<open>stop\<close> throughout.\<close>

definition scan_file :: "scan_env \<Rightarrow> bool \<Rightarrow> scan_state \<Rightarrow> string \<Rightarrow> string \<Rightarrow> scan_state" where
  "scan_file env stop s dirpath fn =
     (let full = join dirpath fn;
          c1 = (cnt s)\<lparr>found := found (cnt s) + 1\<rparr>;
          (ok, c2) = is_allowed_file (env_lower env) (env_getsize env) c1 full;
          s2 = s\<lparr>cnt := c2\<rparr>
      in if ok then (if stop then s2 else put_retry (env_full env full) s2 full) else s2)"

fun scan_files :: "scan_env \<Rightarrow> bool \<Rightarrow> scan_state \<Rightarrow> string \<Rightarrow> string list \<Rightarrow> scan_state" where
  "scan_files env stop s dirpath [] = s"
| "scan_files env stop s dirpath (fn # fns) = scan_files env stop (scan_file env stop s dirpath fn) dirpath fns"

text \<open>\<open>for dirpath, dirs, files in os.walk(base)\<close>, left when the stop signal is set.\<close>

fun scan_walk :: "scan_env \<Rightarrow> bool \<Rightarrow> scan_state \<Rightarrow> (string \<times> string list \<times> string list) list
                  \<Rightarrow> scan_state" where
  "scan_walk env stop s [] = s"
| "scan_walk env stop s ((dirpath, dirs, files) # rest) =
     (if stop then s else scan_walk env stop (scan_files env stop s dirpath files) rest)"

text \<open>\<open>for base in FOLDERS_TO_SCAN\<close>: left when stopped, a missing folder is passed over.\<close>

fun scan_bases :: "scan_env \<Rightarrow> bool \<Rightarrow> scan_state \<Rightarrow> string list \<Rightarrow> scan_state" where
  "scan_bases env stop s [] = s"
| "scan_bases env stop s (base # bases) =
     (if stop then s
      else if \<not> env_exists env base then scan_bases env stop s bases
      else scan_bases env stop (scan_walk env stop s (env_walk env base)) bases)"

text \<open>The \<open>finally\<close> block: one marker per worker, a put that fails is dropped.\<close>

fun put_markers :: "scan_env \<Rightarrow> nat \<Rightarrow> scan_state \<Rightarrow> scan_state" where
  "put_markers env 0 s = s"
| "put_markers env (Suc n) s =
     (let s' = put_markers env n s
      in if env_marker_ok env n then s'\<lparr>fq := fq s' @ [None]\<rparr> else s')"

definition producer_scan :: "scan_env \<Rightarrow> bool \<Rightarrow> scan_state \<Rightarrow> scan_state" where
  "producer_scan env stop s = put_markers env WORKERS (scan_bases env stop s FOLDERS_TO_SCAN)"

subsection \<open>The files of a tree and their three kinds\<close>

text \<open>The full paths the walk meets, in order, one entry per file met.\<close>

definition walk_paths :: "(string \<times> string list \<times> string list) list \<Rightarrow> string list" where
  "walk_paths ts = concat (map (\<lambda>(dirpath, dirs, files). map (join dirpath) files) ts)"

definition scanned_paths :: "scan_env \<Rightarrow> string list" where
  "scanned_paths env =
     concat (map (\<lambda>base. if env_exists env base then walk_paths (env_walk env base) else [])
                 FOLDERS_TO_SCAN)"

definition allowed_ext :: "scan_env \<Rightarrow> string \<Rightarrow> bool" where
  "allowed_ext env p \<longleftrightarrow> env_lower env (snd (splitext p)) \<in> ALLOWED_EXTS"

text \<open>A file that passes the filter; one with another extension or of size zero; an oversized one.\<close>

definition passes :: "scan_env \<Rightarrow> string \<Rightarrow> bool" where
  "passes env p \<longleftrightarrow>
     allowed_ext env p \<and> (case env_getsize env p of None \<Rightarrow> False | Some sz \<Rightarrow> 0 < sz \<and> sz \<le> MAX_FILE_SIZE)"

definition plain_reject :: "scan_env \<Rightarrow> string \<Rightarrow> bool" where
  "plain_reject env p \<longleftrightarrow> \<not> allowed_ext env p \<or> env_getsize env p = Some 0"

definition oversized :: "scan_env \<Rightarrow> string \<Rightarrow> bool" where
  "oversized env p \<longleftrightarrow>
     allowed_ext env p \<and> (case env_getsize env p of None \<Rightarrow> False | Some sz \<Rightarrow> MAX_FILE_SIZE < sz)"

definition unreadable :: "scan_env \<Rightarrow> string \<Rightarrow> bool" where
  "unreadable env p \<longleftrightarrow> allowed_ext env p \<and> env_getsize env p = None"

definition count_of :: "('a \<Rightarrow> bool) \<Rightarrow> 'a list \<Rightarrow> int" where
  "count_of P xs = int (length (filter P xs))"

text \<open>The counters after the files \<open>ps\<close> have been met with the stop signal clear.\<close>

definition tally :: "scan_env \<Rightarrow> string list \<Rightarrow> counters \<Rightarrow> counters" where
  "tally env ps c =
     c\<lparr>found := found c + int (length ps),
       queued := queued c + count_of (passes env) ps,
       skipped := skipped c + count_of (oversized env) ps,
       errors := errors c + count_of (unreadable env) ps\<rparr>"

text \<open>
  A small tree: \<open>/sdcard/DCIM\<close> exists, with two files at the top and three in a
  directory below, one of them with a Kelvin sign in its extension; the other folders are
  missing.
\<close>

definition kelvin_name :: string where
  "kelvin_name = ''e.m'' @ KELVIN @ ''v''"

definition kelvin_path :: string where
  "kelvin_path = ''/sdcard/DCIM/Camera/e.m'' @ KELVIN @ ''v''"

definition fixture_env :: scan_env where
  "fixture_env =
     \<lparr>env_lower = sample_lower,
      env_exists = (\<lambda>base. base = ''/sdcard/DCIM''),
      env_walk = (\<lambda>base. [(''/sdcard/DCIM'', [''Camera''], [''a.jpg'', ''b.txt'']),
                          (''/sdcard/DCIM/Camera'', [],
                           [''c.MP4'', ''d.png'', kelvin_name])]),
      env_getsize = (\<lambda>p. if p = ''/sdcard/DCIM/a.jpg'' then Some 100
                          else if p = ''/sdcard/DCIM/b.txt'' then Some 10
                          else if p = ''/sdcard/DCIM/Camera/c.MP4'' then Some (2 * 1024 ^ 3 + 1)
                          else if p = ''/sdcard/DCIM/Camera/d.png'' then Some 0
                          else if p = kelvin_path then Some 5
                          else None),
      env_full = (\<lambda>p. 2),
      env_marker_ok = (\<lambda>i. True)\<rparr>"

section \<open>The consumers: sending the queued files\<close>

text \<open>Decimal digits of a natural number, as \<open>str\<close> gives them for a non-negative \<open>int\<close>.\<close>

fun show_nat :: "nat \<Rightarrow> string" where
  "show_nat n = (if n < 10 then [''0123456789'' ! n]
                 else show_nat (n div 10) @ [''0123456789'' ! (n mod 10)])"

declare show_nat.simps [simp del]

text \<open>
  What sending one file meets: \<open>open\<close> and \<open>requests.post\<close> either give a response with a
  status code or raise, with the text of the exception. The request carries the MIME type
  guessed from the name (\<open>application/octet-stream\<close> when none is guessed); it plays no
  part in what is returned.
\<close>

datatype send_outcome = Status nat | Raised string

definition send_document_once :: "(string \<Rightarrow> send_outcome) \<Rightarrow> string \<Rightarrow> bool \<times> string option" where
  "send_document_once post file_path =
     (case post file_path of
        Status status_code \<Rightarrow>
          if status_code = 200 then (True, None)
          else (False, Some (''HTTP '' @ show_nat status_code))
      | Raised e \<Rightarrow> (False, Some e))"

text \<open>
  A worker is at the head of its loop (\<open>Idle\<close>), past the test of the stop signal and in
  \<open>file_queue.get\<close> (\<open>Waiting\<close>), holding a path it has taken and not yet counted
  (\<open>Sending\<close>), or has left the loop (\<open>Finished\<close>).
\<close>

datatype wstate = Idle | Waiting | Sending string | Finished

record pool =
  pq :: "string option list"
  pc :: counters
  pw :: "wstate list"
  pstop :: bool

definition QUEUE_MAX :: nat where
  "QUEUE_MAX = 2000"

text \<open>
  One atomic move of the pool. \<open>Put i\<close>: a put of the producer succeeds, of a path or
  of the marker (the queue is not full). \<open>Check w\<close>: worker \<open>w\<close> tests the stop
  signal. \<open>Take w\<close>: its \<open>get\<close> returns the head of the queue, a path or the
  marker. \<open>Timeout w\<close>: its \<open>get\<close> raises \<open>Empty\<close>. \<open>Report w\<close>: it
  calls \<open>send_document_once\<close> and updates \<open>sent\<close> or \<open>errors\<close> under the lock.
  \<open>SetStop\<close>: another thread sets the stop signal. The counters the producer updates
  on its own (\<open>found\<close>, \<open>queued\<close>, \<open>skipped\<close>) are not part of a move.
\<close>

datatype action = Put "string option" | Check nat | Take nat | Timeout nat | Report nat | SetStop

definition step :: "(string \<Rightarrow> send_outcome) \<Rightarrow> action \<Rightarrow> pool \<Rightarrow> pool option" where
  "step post a s =
     (case a of
        SetStop \<Rightarrow> Some (s\<lparr>pstop := True\<rparr>)
      | Put i \<Rightarrow>
          if length (pq s) < QUEUE_MAX then Some (s\<lparr>pq := pq s @ [i]\<rparr>) else None
      | Check w \<Rightarrow>
          if w < length (pw s) \<and> pw s ! w = Idle
          then Some (s\<lparr>pw := (pw s)[w := (if pstop s then Finished else Waiting)]\<rparr>)
          else None
      | Timeout w \<Rightarrow>
          if w < length (pw s) \<and> pw s ! w = Waiting \<and> pq s = []
          then Some (s\<lparr>pw := (pw s)[w := Idle]\<rparr>)
          else None
      | Take w \<Rightarrow>
          if w < length (pw s) \<and> pw s ! w = Waiting
          then (case pq s of
                  [] \<Rightarrow> None
                | None # rest \<Rightarrow> Some (s\<lparr>pq := rest, pw := (pw s)[w := Finished]\<rparr>)
                | Some file_path # rest \<Rightarrow>
                    Some (s\<lparr>pq := rest, pw := (pw s)[w := Sending file_path]\<rparr>))
          else None
      | Report w \<Rightarrow>
          if w < length (pw s)
          then (case pw s ! w of
                  Sending file_path \<Rightarrow>
                    Some (s\<lparr>pc := (if fst (send_document_once post file_path)
                                     then (pc s)\<lparr>sent := sent (pc s) + 1\<rparr>
                                     else (pc s)\<lparr>errors := errors (pc s) + 1\<rparr>),
                             pw := (pw s)[w := Idle]\<rparr>)
                | _ \<Rightarrow> None)
          else None)"

text \<open>A schedule is a list of moves; it runs as long as each move is possible.\<close>

fun exec :: "(string \<Rightarrow> send_outcome) \<Rightarrow> action list \<Rightarrow> pool \<Rightarrow> pool option" where
  "exec post [] s = Some s"
| "exec post (a # as) s = (case step post a s of None \<Rightarrow> None | Some s' \<Rightarrow> exec post as s')"

text \<open>
  The pool as \<open>run\<close> starts it: an empty queue, the workers at the head of their
  loops, the stop signal clear, the counters \<open>c\<close>.
\<close>

definition start :: "counters \<Rightarrow> pool" where
  "start c = \<lparr>pq = [], pc = c, pw = replicate WORKERS Idle, pstop = False\<rparr>"

text \<open>The paths a schedule puts on the queue, in order.\<close>

fun put_files :: "action list \<Rightarrow> string list" where
  "put_files [] = []"
| "put_files (Put (Some file_path) # as) = file_path # put_files as"
| "put_files (a # as) = put_files as"

text \<open>Files not yet counted: the paths still queued and the paths workers hold.\<close>

definition wweight :: "(string \<Rightarrow> bool) \<Rightarrow> wstate \<Rightarrow> int" where
  "wweight P w = (case w of Sending p \<Rightarrow> (if P p then 1 else 0) | _ \<Rightarrow> 0)"

definition qweight :: "(string \<Rightarrow> bool) \<Rightarrow> string option \<Rightarrow> int" where
  "qweight P i = (case i of Some p \<Rightarrow> (if P p then 1 else 0) | None \<Rightarrow> 0)"

definition pending :: "(string \<Rightarrow> bool) \<Rightarrow> pool \<Rightarrow> int" where
  "pending P s = sum_list (map (wweight P) (pw s)) + sum_list (map (qweight P) (pq s))"

definition holds_file :: "wstate \<Rightarrow> bool" where
  "holds_file w = (case w of Sending p \<Rightarrow> True | _ \<Rightarrow> False)"

text \<open>Every queued path has been taken and every taken path has been counted.\<close>

definition drained :: "pool \<Rightarrow> bool" where
  "drained s \<longleftrightarrow> list_all (\<lambda>i. i = None) (pq s) \<and> list_all (\<lambda>w. \<not> holds_file w) (pw s)"

definition succeeds :: "(string \<Rightarrow> send_outcome) \<Rightarrow> string \<Rightarrow> bool" where
  "succeeds post p \<longleftrightarrow> post p = Status 200"

text \<open>
  Five files, three sent with status 200 and two refused; the producer puts them while two
  workers take and send them, and two markers end the two workers.
\<close>

definition five_post :: "string \<Rightarrow> send_outcome" where
  "five_post p = (if p = ''f2.jpg'' then Status 500
                  else if p = ''f4.mp4'' then Status 403 else Status 200)"

definition five_schedule :: "action list" where
  "five_schedule =
     [Put (Some ''f1.jpg''), Check 0, Check 1, Take 0, Put (Some ''f2.jpg''), Take 1,
      Put (Some ''f3.png''), Report 1, Report 0, Check 1, Take 1, Put (Some ''f4.mp4''),
      Check 0, Take 0, Report 0, Put (Some ''f5.gif''), Check 0, Take 0, Report 1, Report 0,
      Put None, Put None, Check 0, Take 0, Check 1, Take 1]"

section \<open>Python values\<close>

text \<open>
  The values the snapshot code handles come from decoded JSON and from \<open>dict\<close> literals.
  A \<open>float\<close> is \<open>Fin q\<close> for the rational \<open>q\<close> it stands for (both zeros are \<open>Fin 0\<close>),
  an infinity or NaN. A \<open>dict\<close> with \<open>str\<close> keys is an association list.
\<close>

datatype pyfloat = Fin rat | PosInf | NegInf | NaN

datatype pyval =
    PNone
  | PBool bool
  | PInt int
  | PFloat pyfloat
  | PStr string
  | PList "pyval list"
  | PDict "(string \<times> pyval) list"

datatype py_error = AttributeError | TypeError | ValueError | OverflowError | MemoryError

text \<open>Truth value testing, as \<open>if v\<close>, \<open>not v\<close> and \<open>v or w\<close> apply it.\<close>

fun truthy :: "pyval \<Rightarrow> bool" where
  "truthy PNone = False"
| "truthy (PBool b) = b"
| "truthy (PInt n) = (n \<noteq> 0)"
| "truthy (PFloat f) = (f \<noteq> Fin 0)"
| "truthy (PStr s) = (s \<noteq> [])"
| "truthy (PList xs) = (xs \<noteq> [])"
| "truthy (PDict d) = (d \<noteq> [])"

definition py_or :: "pyval \<Rightarrow> pyval \<Rightarrow> pyval" where
  "py_or a b = (if truthy a then a else b)"

text \<open>\<open>d.get(k)\<close> and \<open>d.get(k, default)\<close> on a \<open>dict\<close>.\<close>

definition dict_get :: "(string \<times> pyval) list \<Rightarrow> string \<Rightarrow> pyval" where
  "dict_get d k = (case map_of d k of None \<Rightarrow> PNone | Some v \<Rightarrow> v)"

definition dict_get_default :: "(string \<times> pyval) list \<Rightarrow> string \<Rightarrow> pyval \<Rightarrow> pyval" where
  "dict_get_default d k dflt = (case map_of d k of None \<Rightarrow> dflt | Some v \<Rightarrow> v)"

text \<open>The number zero, as an \<open>int\<close> or as a \<open>float\<close>.\<close>

definition is_zero :: "pyval \<Rightarrow> bool" where
  "is_zero v \<longleftrightarrow> v = PInt 0 \<or> v = PFloat (Fin 0)"

text \<open>
  \<open>format(v, '')\<close>, which an f-string applies to each field: a \<open>str\<close> is itself,
  \<open>None\<close>, a \<open>bool\<close> and an \<open>int\<close> print as below. What the interpreter prints for a
  \<open>float\<close> (the shortest digits that read back as the same float) and for a container
  is the argument \<open>rt\<close>.
\<close>

definition show_int :: "int \<Rightarrow> string" where
  "show_int n = (if n < 0 then ''-'' @ show_nat (nat (- n)) else show_nat (nat n))"

fun py_format :: "(pyval \<Rightarrow> string) \<Rightarrow> pyval \<Rightarrow> string" where
  "py_format rt (PStr s) = s"
| "py_format rt PNone = ''None''"
| "py_format rt (PBool b) = (if b then ''True'' else ''False'')"
| "py_format rt (PInt n) = show_int n"
| "py_format rt v = rt v"

section \<open>Geolocation of the public address\<close>

text \<open>
  The two providers, \<open>ipapi.co\<close> and \<open>ip-api.com\<close>. A request for an address is
  \<open>http p ip\<close>: \<open>None\<close> when \<open>requests.get\<close>, \<open>raise_for_status\<close> or \<open>r.json()\<close>
  raises, else the decoded body. The function returns its result and the requests it made.
\<close>

datatype provider = Primary | Secondary

definition remap_fields :: "(string \<times> pyval) list \<Rightarrow> pyval" where
  "remap_fields j =
     PDict [(''ip'', dict_get j ''query''),
            (''latitude'', dict_get j ''lat''),
            (''longitude'', dict_get j ''lon''),
            (''city'', dict_get j ''city''),
            (''region'', dict_get j ''region''),
            (''country_name'', dict_get j ''country''),
            (''org'', dict_get j ''org''),
            (''postal'', dict_get j ''postal''),
            (''timezone'', dict_get j ''timezone'')]"

definition geolocate_ip :: "(provider \<Rightarrow> pyval \<Rightarrow> pyval option) \<Rightarrow> pyval \<Rightarrow> pyval \<times> provider list" where
  "geolocate_ip http ip =
     (if \<not> truthy ip then (PDict [], [])
      else case http Primary ip of
             Some body \<Rightarrow> (body, [Primary])
           | None \<Rightarrow>
               (case http Secondary ip of
                  None \<Rightarrow> (PDict [], [Primary, Secondary])
                | Some (PDict j) \<Rightarrow>
                    if dict_get j ''status'' = PStr ''success''
                    then (remap_fields j, [Primary, Secondary])
                    else (PDict [], [Primary, Secondary])
                | Some _ \<Rightarrow> (PDict [], [Primary, Secondary])))"

text \<open>The status field of the second provider's answer, when the answer is a mapping.\<close>

definition secondary_success :: "(provider \<Rightarrow> pyval \<Rightarrow> pyval option) \<Rightarrow> pyval \<Rightarrow> bool" where
  "secondary_success http ip =
     (case http Secondary ip of
        Some (PDict j) \<Rightarrow> dict_get j ''status'' = PStr ''success''
      | _ \<Rightarrow> False)"

definition dict_keys :: "pyval \<Rightarrow> string list" where
  "dict_keys v = (case v of PDict d \<Rightarrow> map fst d | _ \<Rightarrow> [])"

text \<open>A stub: the first provider is down, the second answers for \<open>8.8.8.8\<close> only.\<close>

definition stub_http :: "provider \<Rightarrow> pyval \<Rightarrow> pyval option" where
  "stub_http p ip =
     (case p of
        Primary \<Rightarrow> None
      | Secondary \<Rightarrow>
          if ip = PStr ''8.8.8.8''
          then Some (PDict [(''status'', PStr ''success''), (''query'', PStr ''8.8.8.8''),
                            (''lat'', PFloat (Fin (3975 / 100))), (''lon'', PInt (- 84)),
                            (''country'', PStr ''United States'')])
          else Some (PDict [(''status'', PStr ''fail''), (''message'', PStr ''private range''),
                            (''query'', ip)]))"

section \<open>The combined identifier\<close>

text \<open>
  The first lines of \<open>build_message_from_snapshot\<close>, up to the value of \<open>combined_id\<close>
  (\<open>None\<close> or a \<open>str\<close>). \<open>geo.get\<close> raises \<open>AttributeError\<close> when \<open>geo\<close> is not a
  \<open>dict\<close>.
\<close>

definition build_message_combined_id ::
    "(pyval \<Rightarrow> string) \<Rightarrow> (string \<times> pyval) list \<Rightarrow> py_error + string option" where
  "build_message_combined_id rt snap =
     (let ip4 = dict_get snap ''public_ipv4'';
          geo = dict_get_default snap ''geo'' (PDict [])
      in case geo of
           PDict g \<Rightarrow>
             (let lat = py_or (dict_get g ''latitude'') (dict_get g ''lat'');
                  lon = py_or (dict_get g ''longitude'') (dict_get g ''lon'')
              in if truthy ip4 \<and> truthy lat \<and> truthy lon
                 then Inr (Some (py_format rt ip4 @ ''|'' @ py_format rt lat @ '','' @ py_format rt lon))
                 else if truthy ip4 then Inr (Some (py_format rt ip4 @ ''|N/A''))
                 else Inr None)
         | _ \<Rightarrow> Inl AttributeError)"

text \<open>Step 2 of \<open>run\<close>: the value it stores under \<open>combined_id\<close>.\<close>

definition run_combined_id ::
    "(pyval \<Rightarrow> string) \<Rightarrow> (string \<times> pyval) list \<Rightarrow> py_error + string option" where
  "run_combined_id rt snapshot =
     (let ip4 = dict_get snapshot ''public_ipv4'';
          geo = py_or (dict_get snapshot ''geo'') (PDict [])
      in case geo of
           PDict g \<Rightarrow>
             (let lat = py_or (dict_get g ''latitude'') (dict_get g ''lat'');
                  lon = py_or (dict_get g ''longitude'') (dict_get g ''lon'')
              in if truthy ip4 \<and> truthy lat \<and> truthy lon
                 then Inr (Some (py_format rt ip4 @ ''|'' @ py_format rt lat @ '','' @ py_format rt lon))
                 else if truthy ip4 then Inr (Some (py_format rt ip4 @ ''|N/A''))
                 else Inr None)
         | _ \<Rightarrow> Inl AttributeError)"

text \<open>
  A stand-in for the interpreter's printing of floats in the examples: it prints the two
  floats \<open>10.5\<close> and \<open>20.5\<close> as Python does and is arbitrary elsewhere.
\<close>

definition example_rt :: "pyval \<Rightarrow> string" where
  "example_rt v = (if v = PFloat (Fin (21 / 2)) then ''10.5''
                   else if v = PFloat (Fin (41 / 2)) then ''20.5'' else ''?'')"

definition snap_of :: "pyval \<Rightarrow> pyval \<Rightarrow> (string \<times> pyval) list" where
  "snap_of ip4 geo = [(''public_ipv4'', ip4), (''geo'', geo)]"

section \<open>Floats: rounding to binary64\<close>

text \<open>
  The binade of a positive rational \<open>x\<close>: the exponent \<open>e\<close> with \<open>2^e \<le> x < 2^(e+1)\<close>,
  found from the bit lengths of numerator and denominator.
\<close>

definition bexp :: "rat \<Rightarrow> int" where
  "bexp x = (let (n, d) = quotient_of x; c = bitlen n - bitlen d
             in if 2 powi c \<le> x then c else c - 1)"

text \<open>Rounding to the nearest integer, a tie going to the even one.\<close>

definition round_even :: "rat \<Rightarrow> int" where
  "round_even y =
     (let f = \<lfloor>y\<rfloor>; r = y - of_int f
      in if r < 1 / 2 then f else if 1 / 2 < r then f + 1 else if even f then f else f + 1)"

text \<open>
  The float nearest to a rational: 53 significant bits, so a positive \<open>a\<close> is rounded
  to a multiple of \<open>2^q\<close> with \<open>q = e - 52\<close> for the binade \<open>e\<close> of \<open>a\<close>;
  exponents from \<open>-1022\<close> (below that the spacing stays \<open>2^-1074\<close>), ties to even, and
  an infinity when the rounded value \<open>m * 2^q\<close> reaches \<open>2^1024\<close>, that is when \<open>m\<close>
  has more than \<open>1024 - q\<close> bits.
\<close>

definition quantum :: "rat \<Rightarrow> int" where
  "quantum a = max (bexp a) (- 1022) - 52"

definition b64_val :: "rat \<Rightarrow> rat" where
  "b64_val a = of_int (round_even (a / 2 powi quantum a)) * 2 powi quantum a"

definition b64 :: "rat \<Rightarrow> pyfloat" where
  "b64 x =
     (if x = 0 then Fin 0
      else let a = \<bar>x\<bar>
           in if 1024 < quantum a + bitlen (round_even (a / 2 powi quantum a))
              then (if 0 < x then PosInf else NegInf)
              else Fin (if 0 < x then b64_val a else - b64_val a))"

text \<open>
  \<open>x / c\<close> and \<open>x * c\<close> for a float \<open>x\<close> and a finite positive float \<open>c\<close>: the exact
  result rounded; an infinity or NaN stays what it is.
\<close>

definition float_div :: "pyfloat \<Rightarrow> rat \<Rightarrow> pyfloat" where
  "float_div x c = (case x of Fin a \<Rightarrow> b64 (a / c) | _ \<Rightarrow> x)"

definition float_mul :: "pyfloat \<Rightarrow> rat \<Rightarrow> pyfloat" where
  "float_mul x c = (case x of Fin a \<Rightarrow> b64 (a * c) | _ \<Rightarrow> x)"

text \<open>\<open>int(x)\<close> of a float: truncation towards zero; it raises on an infinity and on NaN.\<close>

definition float_int :: "pyfloat \<Rightarrow> py_error + int" where
  "float_int x =
     (case x of
        Fin a \<Rightarrow> Inr (if 0 \<le> a then \<lfloor>a\<rfloor> else \<lceil>a\<rceil>)
      | NaN \<Rightarrow> Inl ValueError
      | _ \<Rightarrow> Inl OverflowError)"

text \<open>
  \<open>float(v)\<close>. An \<open>int\<close> is rounded, and raises when it is too large; a \<open>str\<close> is
  parsed by the interpreter, the argument \<open>parse\<close> (\<open>None\<close> when it raises); \<open>None\<close>
  and the containers raise.
\<close>

definition py_float :: "(string \<Rightarrow> pyfloat option) \<Rightarrow> pyval \<Rightarrow> py_error + pyfloat" where
  "py_float parse v =
     (case v of
        PFloat f \<Rightarrow> Inr f
      | PInt n \<Rightarrow> (case b64 (of_int n) of Fin a \<Rightarrow> Inr (Fin a) | _ \<Rightarrow> Inl OverflowError)
      | PBool b \<Rightarrow> Inr (Fin (if b then 1 else 0))
      | PStr s \<Rightarrow> (case parse s of None \<Rightarrow> Inl ValueError | Some f \<Rightarrow> Inr f)
      | _ \<Rightarrow> Inl TypeError)"

section \<open>The battery bar\<close>

text \<open>
  A \<open>str\<close> that may hold the two glyphs is a list of code points: \<open>SOLID\<close> is U+25AE,
  \<open>LIGHT\<close> is U+25AF, and \<open>NA\<close> is the text \<open>N/A\<close>.
\<close>

definition SOLID :: nat where
  "SOLID = 9646"

definition LIGHT :: nat where
  "LIGHT = 9647"

definition NA :: "nat list" where
  "NA = [78, 47, 65]"

text \<open>
  \<open>s * n\<close> for a one-character \<open>str\<close>. The count must fit an index of the
  interpreter, from \<open>-sys.maxsize - 1\<close> to \<open>sys.maxsize\<close> (\<open>2^63 - 1\<close> on a 64-bit
  build), or \<open>OverflowError\<close> is raised; a count that is not positive gives the empty
  string; and the string must fit in memory, or \<open>MemoryError\<close> is raised. The argument
  \<open>spare\<close> is the number of characters, beyond the ten of a full bar, that one string can
  still hold on the machine.
\<close>

definition PY_SSIZE_T_MAX :: int where
  "PY_SSIZE_T_MAX = 2 ^ 63 - 1"

definition str_times :: "nat \<Rightarrow> nat \<Rightarrow> int \<Rightarrow> py_error + nat list" where
  "str_times spare ch n =
     (if n < - PY_SSIZE_T_MAX - 1 \<or> PY_SSIZE_T_MAX < n then Inl OverflowError
      else if n \<le> 0 then Inr []
      else if 10 + int spare < n then Inl MemoryError
      else Inr (replicate (nat n) ch))"

text \<open>The longest string \<open>s * n\<close> builds.\<close>

definition str_limit :: "nat \<Rightarrow> int" where
  "str_limit spare = min PY_SSIZE_T_MAX (10 + int spare)"

text \<open>The bare \<open>except\<close> turns every exception into the text \<open>N/A\<close>.\<close>

definition battery_bars :: "(string \<Rightarrow> pyfloat option) \<Rightarrow> nat \<Rightarrow> pyval \<Rightarrow> nat list" where
  "battery_bars parse spare percentage =
     (case py_float parse percentage of
        Inl e \<Rightarrow> NA
      | Inr p \<Rightarrow>
          (case float_int (float_mul (float_div p 100) 10) of
             Inl e \<Rightarrow> NA
           | Inr bars \<Rightarrow>
               (case str_times spare SOLID bars of
                  Inl e \<Rightarrow> NA
                | Inr solid \<Rightarrow>
                    (case str_times spare LIGHT (10 - bars) of
                       Inl e \<Rightarrow> NA
                     | Inr light \<Rightarrow> solid @ light))))"

text \<open>The lines of \<open>collect_full_snapshot\<close> that give the snapshot its \<open>battery_bars\<close>.\<close>

definition collect_full_snapshot_bars ::
    "(string \<Rightarrow> pyfloat option) \<Rightarrow> nat \<Rightarrow> pyval \<Rightarrow> nat list" where
  "collect_full_snapshot_bars parse spare battery =
     (let perc = (case battery of
                    PDict d \<Rightarrow> py_or (dict_get d ''percentage'') (dict_get d ''level'')
                  | _ \<Rightarrow> PNone)
      in if truthy perc then battery_bars parse spare perc else NA)"

text \<open>
  For the examples: a parser stub that knows the text \<open>50\<close> and rejects the rest, and a
  machine with room for strings of a thousand characters and ten.
\<close>

definition example_parse :: "string \<Rightarrow> pyfloat option" where
  "example_parse s = (if s = ''50'' then Some (Fin 50) else None)"

definition example_spare :: nat where
  "example_spare = 1000"

section \<open>Properties of the allow-list classifier\<close>

lemma card_ALLOWED_EXTS: "card ALLOWED_EXTS = 11"
  by (simp add: ALLOWED_EXTS_def)

lemma MAX_FILE_SIZE_eq: "MAX_FILE_SIZE = 2 * 1024 ^ 3"
  by (simp add: MAX_FILE_SIZE_def)

lemma is_allowed_file_fst:
  "fst (is_allowed_file lower getsize c path) \<longleftrightarrow>
     lower (snd (splitext path)) \<in> ALLOWED_EXTS \<and>
     (\<exists>sz. getsize path = Some sz \<and> 0 < sz \<and> sz \<le> MAX_FILE_SIZE)"
  by (auto simp: is_allowed_file_def Let_def split: option.splits)

lemma is_allowed_file_counters:
  "snd (is_allowed_file lower getsize c path) =
     (if lower (snd (splitext path)) \<notin> ALLOWED_EXTS then c
      else case getsize path of
             None \<Rightarrow> c\<lparr>errors := errors c + 1\<rparr>
           | Some sz \<Rightarrow> if sz > MAX_FILE_SIZE then c\<lparr>skipped := skipped c + 1\<rparr> else c)"
  by (auto simp: is_allowed_file_def Let_def MAX_FILE_SIZE_def split: option.splits)

text \<open>
  Claim C1. The classifier accepts a path exactly when its extension, lowercased as
  \<open>str.lower\<close> does it, is one of the 11 allowed ones and its size is greater than 0 and at most \<open>2 * 1024^3\<close> bytes. A
  zero-byte file with an allowed extension is rejected and the counters stay as they
  were; an oversized file with an allowed extension is rejected and \<open>skipped\<close> grows by
  exactly 1; a file with another extension is rejected and the counters stay as they were.
\<close>

theorem is_allowed_file_classifies:
  "card ALLOWED_EXTS = 11 \<and>
   (fst (is_allowed_file lower getsize c path) \<longleftrightarrow>
      lower (snd (splitext path)) \<in> ALLOWED_EXTS \<and>
      (\<exists>sz. getsize path = Some sz \<and> 0 < sz \<and> sz \<le> 2 * 1024 ^ 3)) \<and>
   (lower (snd (splitext path)) \<in> ALLOWED_EXTS \<and> getsize path = Some 0 \<longrightarrow>
      is_allowed_file lower getsize c path = (False, c)) \<and>
   (lower (snd (splitext path)) \<in> ALLOWED_EXTS \<and> getsize path = Some big \<and>
    2 * 1024 ^ 3 < big \<longrightarrow>
      is_allowed_file lower getsize c path = (False, c\<lparr>skipped := skipped c + 1\<rparr>)) \<and>
   (lower (snd (splitext path)) \<notin> ALLOWED_EXTS \<longrightarrow>
      is_allowed_file lower getsize c path = (False, c))"
proof -
  have "fst (is_allowed_file lower getsize c path) \<longleftrightarrow>
      lower (snd (splitext path)) \<in> ALLOWED_EXTS \<and>
      (\<exists>sz. getsize path = Some sz \<and> 0 < sz \<and> sz \<le> 2 * 1024 ^ 3)"
    using is_allowed_file_fst [of lower getsize c path] by (simp only: MAX_FILE_SIZE_eq)
  moreover have "lower (snd (splitext path)) \<in> ALLOWED_EXTS \<and> getsize path = Some 0 \<longrightarrow>
      is_allowed_file lower getsize c path = (False, c)"
    by (simp add: is_allowed_file_def)
  moreover have "lower (snd (splitext path)) \<in> ALLOWED_EXTS \<and> getsize path = Some big \<and>
      2 * 1024 ^ 3 < big \<longrightarrow>
      is_allowed_file lower getsize c path = (False, c\<lparr>skipped := skipped c + 1\<rparr>)"
    by (simp add: is_allowed_file_def MAX_FILE_SIZE_eq)
  moreover have "lower (snd (splitext path)) \<notin> ALLOWED_EXTS \<longrightarrow>
      is_allowed_file lower getsize c path = (False, c)"
    by (simp add: is_allowed_file_def)
  ultimately show ?thesis
    using card_ALLOWED_EXTS by blast
qed

lemma ext_of_examples:
  "sample_lower (snd (splitext ''/sdcard/DCIM/empty.jpg'')) = ''.jpg''"
  "sample_lower (snd (splitext ''/sdcard/Movies/huge.MP4'')) = ''.mp4''"
  "sample_lower (snd (splitext ''/sdcard/Download/notes.txt'')) = ''.txt''"
  "sample_lower (snd (splitext ''/sdcard/DCIM/IMG_1.JPG'')) = ''.jpg''"
  "sample_lower (snd (splitext kelvin_path)) = ''.mkv''"
  by (simp_all add: lower_char_def splitext_def rfind_def kelvin_path_def KELVIN_def)

theorem is_allowed_file_classifies_witness:
  "is_allowed_file sample_lower (\<lambda>p. Some 0) counters0 ''/sdcard/DCIM/empty.jpg''
     = (False, counters0) \<and>
   is_allowed_file sample_lower (\<lambda>p. Some (2 * 1024 ^ 3 + 1)) counters0 ''/sdcard/Movies/huge.MP4''
     = (False, counters0\<lparr>skipped := 1\<rparr>) \<and>
   is_allowed_file sample_lower (\<lambda>p. Some 10) counters0 ''/sdcard/Download/notes.txt''
     = (False, counters0) \<and>
   fst (is_allowed_file sample_lower (\<lambda>p. Some (2 * 1024 ^ 3)) counters0 ''/sdcard/DCIM/IMG_1.JPG'') \<and>
   fst (is_allowed_file sample_lower (\<lambda>p. Some 10) counters0 kelvin_path)"
  using is_allowed_file_classifies
          [of sample_lower "\<lambda>p. Some 0" counters0 "''/sdcard/DCIM/empty.jpg''" 0]
        is_allowed_file_classifies
          [of sample_lower "\<lambda>p. Some (2 * 1024 ^ 3 + 1)" counters0 "''/sdcard/Movies/huge.MP4''"
              "2 * 1024 ^ 3 + 1"]
        is_allowed_file_classifies
          [of sample_lower "\<lambda>p. Some 10" counters0 "''/sdcard/Download/notes.txt''" 0]
        is_allowed_file_classifies
          [of sample_lower "\<lambda>p. Some (2 * 1024 ^ 3)" counters0 "''/sdcard/DCIM/IMG_1.JPG''" 0]
        is_allowed_file_classifies
          [of sample_lower "\<lambda>p. Some 10" counters0 kelvin_path 0]
  by (simp add: ext_of_examples ALLOWED_EXTS_def counters0_def)

section \<open>Properties of the producer\<close>

lemma put_retry_cnt: "cnt (put_retry n s full) = (cnt s)\<lparr>queued := queued (cnt s) + 1\<rparr>"
  by (induction n) simp_all

lemma tally_Nil: "tally env [] c = c"
  by (simp add: tally_def count_of_def)

lemma tally_append: "tally env (ps @ qs) c = tally env qs (tally env ps c)"
  by (simp add: tally_def count_of_def)

lemma scan_file_cnt:
  "cnt (scan_file env False s dirpath fn) = tally env [join dirpath fn] (cnt s)"
  by (auto simp: scan_file_def is_allowed_file_def Let_def tally_def count_of_def passes_def
        oversized_def unreadable_def allowed_ext_def put_retry_cnt split: option.splits)

lemma scan_files_cnt:
  "cnt (scan_files env False s dirpath fns) = tally env (map (join dirpath) fns) (cnt s)"
proof (induction fns arbitrary: s)
  case Nil
  show ?case by (simp add: tally_Nil)
next
  case (Cons fn fns)
  have "tally env (map (join dirpath) (fn # fns)) (cnt s)
        = tally env (map (join dirpath) fns) (tally env [join dirpath fn] (cnt s))"
    using tally_append [of env "[join dirpath fn]" "map (join dirpath) fns" "cnt s"] by simp
  then show ?case
    by (simp add: Cons.IH scan_file_cnt)
qed

lemma scan_walk_cnt:
  "cnt (scan_walk env False s ts) = tally env (walk_paths ts) (cnt s)"
proof (induction ts arbitrary: s)
  case Nil
  show ?case by (simp add: walk_paths_def tally_Nil)
next
  case (Cons t ts)
  obtain dirpath dirs files where t: "t = (dirpath, dirs, files)"
    by (cases t) auto
  have "walk_paths (t # ts) = map (join dirpath) files @ walk_paths ts"
    by (simp add: walk_paths_def t)
  then show ?case
    by (simp add: t Cons.IH scan_files_cnt tally_append)
qed

lemma scan_bases_cnt:
  "cnt (scan_bases env False s bases)
     = tally env (concat (map (\<lambda>base. if env_exists env base then walk_paths (env_walk env base)
                                       else []) bases)) (cnt s)"
proof (induction bases arbitrary: s)
  case Nil
  show ?case by (simp add: tally_Nil)
next
  case (Cons base bases)
  show ?case
    by (simp add: Cons.IH scan_walk_cnt tally_append tally_Nil)
qed

lemma put_markers_cnt: "cnt (put_markers env n s) = cnt s"
  by (induction n) (simp_all add: Let_def)

lemma producer_scan_cnt:
  "cnt (producer_scan env False s) = tally env (scanned_paths env) (cnt s)"
  by (simp add: producer_scan_def put_markers_cnt scan_bases_cnt scanned_paths_def)

text \<open>Each file is of exactly one kind, once every file with an allowed extension has a size.\<close>

lemma kinds_partition:
  assumes "\<forall>p\<in>set ps. \<not> unreadable env p"
  shows "int (length ps)
         = count_of (passes env) ps + count_of (plain_reject env) ps + count_of (oversized env) ps"
  using assms
proof (induction ps)
  case Nil
  show ?case by (simp add: count_of_def)
next
  case (Cons p ps)
  have one: "(if passes env p then 1 else 0) + (if plain_reject env p then 1 else 0)
             + (if oversized env p then 1 else 0) = (1::int)"
    using Cons.prems
    by (auto simp: passes_def plain_reject_def oversized_def unreadable_def split: option.splits)
  have rest: "int (length ps)
         = count_of (passes env) ps + count_of (plain_reject env) ps + count_of (oversized env) ps"
    using Cons by simp
  have step: "count_of P (p # ps) = (if P p then 1 else 0) + count_of P ps" for P :: "string \<Rightarrow> bool"
    by (simp add: count_of_def)
  have "int (length (p # ps)) = 1 + int (length ps)"
    by simp
  with one rest show ?case
    unfolding step by linarith
qed

text \<open>
  Claim C4. After a scan with the stop signal never set, over a tree in which every file
  met is of one of three kinds (N pass the filter, M have another extension or size zero,
  K are oversized with an allowed extension), the counters, zero at the start, satisfy
  \<open>found = N + M + K\<close>, \<open>queued = N\<close> and \<open>skipped = K\<close>.
\<close>

theorem producer_scan_counts:
  assumes "\<forall>p\<in>set (scanned_paths env). passes env p \<or> plain_reject env p \<or> oversized env p"
  shows "found (cnt (producer_scan env False \<lparr>cnt = counters0, fq = []\<rparr>))
           = count_of (passes env) (scanned_paths env)
             + count_of (plain_reject env) (scanned_paths env)
             + count_of (oversized env) (scanned_paths env) \<and>
         queued (cnt (producer_scan env False \<lparr>cnt = counters0, fq = []\<rparr>))
           = count_of (passes env) (scanned_paths env) \<and>
         skipped (cnt (producer_scan env False \<lparr>cnt = counters0, fq = []\<rparr>))
           = count_of (oversized env) (scanned_paths env)"
proof -
  have "\<forall>p\<in>set (scanned_paths env). \<not> unreadable env p"
    using assms
    by (auto simp: unreadable_def passes_def plain_reject_def oversized_def split: option.splits)
  then have total: "int (length (scanned_paths env))
           = count_of (passes env) (scanned_paths env)
             + count_of (plain_reject env) (scanned_paths env)
             + count_of (oversized env) (scanned_paths env)"
    by (rule kinds_partition)
  have "cnt (producer_scan env False \<lparr>cnt = counters0, fq = []\<rparr>)
          = tally env (scanned_paths env) counters0"
    by (simp add: producer_scan_cnt)
  with total show ?thesis
    by (simp add: tally_def counters0_def)
qed

lemma fixture_paths:
  "scanned_paths fixture_env
     = [''/sdcard/DCIM/a.jpg'', ''/sdcard/DCIM/b.txt'',
        ''/sdcard/DCIM/Camera/c.MP4'', ''/sdcard/DCIM/Camera/d.png'',
        kelvin_path]"
  by (simp add: scanned_paths_def walk_paths_def fixture_env_def FOLDERS_TO_SCAN_def join_def
        kelvin_path_def kelvin_name_def KELVIN_def)

lemma fixture_exts:
  "allowed_ext fixture_env ''/sdcard/DCIM/a.jpg''"
  "\<not> allowed_ext fixture_env ''/sdcard/DCIM/b.txt''"
  "allowed_ext fixture_env ''/sdcard/DCIM/Camera/c.MP4''"
  "allowed_ext fixture_env ''/sdcard/DCIM/Camera/d.png''"
  "allowed_ext fixture_env kelvin_path"
  by (simp_all add: allowed_ext_def fixture_env_def lower_char_def splitext_def rfind_def
        ALLOWED_EXTS_def kelvin_path_def KELVIN_def)

lemma fixture_sizes:
  "env_getsize fixture_env ''/sdcard/DCIM/a.jpg'' = Some 100"
  "env_getsize fixture_env ''/sdcard/DCIM/b.txt'' = Some 10"
  "env_getsize fixture_env ''/sdcard/DCIM/Camera/c.MP4'' = Some (2 * 1024 ^ 3 + 1)"
  "env_getsize fixture_env ''/sdcard/DCIM/Camera/d.png'' = Some 0"
  "env_getsize fixture_env kelvin_path = Some 5"
  by (simp_all add: fixture_env_def kelvin_path_def KELVIN_def)

lemma fixture_kinds:
  "passes fixture_env ''/sdcard/DCIM/a.jpg''"
  "\<not> passes fixture_env ''/sdcard/DCIM/b.txt''"
  "\<not> passes fixture_env ''/sdcard/DCIM/Camera/c.MP4''"
  "\<not> passes fixture_env ''/sdcard/DCIM/Camera/d.png''"
  "passes fixture_env kelvin_path"
  "\<not> plain_reject fixture_env ''/sdcard/DCIM/a.jpg''"
  "plain_reject fixture_env ''/sdcard/DCIM/b.txt''"
  "\<not> plain_reject fixture_env ''/sdcard/DCIM/Camera/c.MP4''"
  "plain_reject fixture_env ''/sdcard/DCIM/Camera/d.png''"
  "\<not> plain_reject fixture_env kelvin_path"
  "\<not> oversized fixture_env ''/sdcard/DCIM/a.jpg''"
  "\<not> oversized fixture_env ''/sdcard/DCIM/b.txt''"
  "oversized fixture_env ''/sdcard/DCIM/Camera/c.MP4''"
  "\<not> oversized fixture_env ''/sdcard/DCIM/Camera/d.png''"
  "\<not> oversized fixture_env kelvin_path"
  by (simp_all add: passes_def plain_reject_def oversized_def fixture_exts fixture_sizes
        MAX_FILE_SIZE_def)

theorem producer_scan_counts_witness:
  "found (cnt (producer_scan fixture_env False \<lparr>cnt = counters0, fq = []\<rparr>)) = 2 + 2 + 1 \<and>
   queued (cnt (producer_scan fixture_env False \<lparr>cnt = counters0, fq = []\<rparr>)) = 2 \<and>
   skipped (cnt (producer_scan fixture_env False \<lparr>cnt = counters0, fq = []\<rparr>)) = 1"
  using producer_scan_counts [of fixture_env]
  by (simp add: fixture_paths fixture_kinds count_of_def)

section \<open>Properties of the consumers\<close>

lemma send_document_once_fst: "fst (send_document_once post p) \<longleftrightarrow> succeeds post p"
  by (simp add: send_document_once_def succeeds_def split: send_outcome.splits)

lemma sum_list_map_update:
  fixes f :: "'a \<Rightarrow> int"
  assumes "w < length xs"
  shows "sum_list (map f (xs[w := v])) = sum_list (map f xs) - f (xs ! w) + f v"
  using assms
proof (induction xs arbitrary: w)
  case Nil
  then show ?case by simp
next
  case (Cons x xs)
  then show ?case by (cases w) simp_all
qed

lemma wweight_simps:
  "wweight P Idle = 0" "wweight P Waiting = 0" "wweight P Finished = 0"
  "wweight P (Sending p) = (if P p then 1 else 0)"
  by (simp_all add: wweight_def)

lemma qweight_simps:
  "qweight P None = 0" "qweight P (Some p) = (if P p then 1 else 0)"
  by (simp_all add: qweight_def)

lemma sum_list_zero: "(\<And>x. x \<in> set xs \<Longrightarrow> f x = (0::int)) \<Longrightarrow> sum_list (map f xs) = 0"
  by (induction xs) simp_all

text \<open>
  A move leaves the number of files counted or still to be counted as it is, a put of a
  path apart, which adds that path.
\<close>

lemma step_sent:
  assumes "step post a s = Some s'"
  shows "sent (pc s') + pending (succeeds post) s'
           = sent (pc s) + pending (succeeds post) s + count_of (succeeds post) (put_files [a])"
proof (cases a)
  case SetStop
  with assms show ?thesis by (auto simp: step_def pending_def count_of_def)
next
  case (Put i)
  with assms show ?thesis
    by (cases i) (auto simp: step_def pending_def qweight_simps count_of_def split: if_splits)
next
  case (Check w)
  with assms show ?thesis
    by (auto simp: step_def pending_def sum_list_map_update wweight_simps count_of_def
          split: if_splits)
next
  case (Timeout w)
  with assms show ?thesis
    by (auto simp: step_def pending_def sum_list_map_update wweight_simps count_of_def
          split: if_splits)
next
  case (Take w)
  with assms show ?thesis
    by (auto simp: step_def pending_def sum_list_map_update wweight_simps qweight_simps
          count_of_def split: if_splits list.splits option.splits)
next
  case (Report w)
  with assms show ?thesis
    by (auto simp: step_def pending_def sum_list_map_update wweight_simps count_of_def
          send_document_once_fst split: if_splits wstate.splits)
qed

lemma step_errors:
  assumes "step post a s = Some s'"
  shows "errors (pc s') + pending (\<lambda>p. \<not> succeeds post p) s'
           = errors (pc s) + pending (\<lambda>p. \<not> succeeds post p) s
             + count_of (\<lambda>p. \<not> succeeds post p) (put_files [a])"
proof (cases a)
  case SetStop
  with assms show ?thesis by (auto simp: step_def pending_def count_of_def)
next
  case (Put i)
  with assms show ?thesis
    by (cases i) (auto simp: step_def pending_def qweight_simps count_of_def split: if_splits)
next
  case (Check w)
  with assms show ?thesis
    by (auto simp: step_def pending_def sum_list_map_update wweight_simps count_of_def
          split: if_splits)
next
  case (Timeout w)
  with assms show ?thesis
    by (auto simp: step_def pending_def sum_list_map_update wweight_simps count_of_def
          split: if_splits)
next
  case (Take w)
  with assms show ?thesis
    by (auto simp: step_def pending_def sum_list_map_update wweight_simps qweight_simps
          count_of_def split: if_splits list.splits option.splits)
next
  case (Report w)
  with assms show ?thesis
    by (auto simp: step_def pending_def sum_list_map_update wweight_simps count_of_def
          send_document_once_fst split: if_splits wstate.splits)
qed

lemma put_files_Cons:
  "count_of P (put_files (a # as)) = count_of P (put_files [a]) + count_of P (put_files as)"
proof (cases a)
  case (Put i)
  then show ?thesis
    by (cases i) (simp_all add: count_of_def)
qed (simp_all add: count_of_def)

lemma exec_sent:
  "exec post acts s = Some s' \<Longrightarrow>
     sent (pc s') + pending (succeeds post) s'
       = sent (pc s) + pending (succeeds post) s + count_of (succeeds post) (put_files acts)"
proof (induction acts arbitrary: s)
  case Nil
  then show ?case by (simp add: count_of_def)
next
  case (Cons a acts)
  then obtain t where t: "step post a s = Some t" and rest: "exec post acts t = Some s'"
    by (auto split: option.splits)
  from Cons.IH [OF rest] step_sent [OF t] show ?case
    by (simp add: put_files_Cons [of _ a acts])
qed

lemma exec_errors:
  "exec post acts s = Some s' \<Longrightarrow>
     errors (pc s') + pending (\<lambda>p. \<not> succeeds post p) s'
       = errors (pc s) + pending (\<lambda>p. \<not> succeeds post p) s
         + count_of (\<lambda>p. \<not> succeeds post p) (put_files acts)"
proof (induction acts arbitrary: s)
  case Nil
  then show ?case by (simp add: count_of_def)
next
  case (Cons a acts)
  then obtain t where t: "step post a s = Some t" and rest: "exec post acts t = Some s'"
    by (auto split: option.splits)
  from Cons.IH [OF rest] step_errors [OF t] show ?case
    by (simp add: put_files_Cons [of _ a acts])
qed

lemma pending_drained: "drained s \<Longrightarrow> pending P s = 0"
proof -
  assume d: "drained s"
  have "sum_list (map (wweight P) (pw s)) = 0"
    using d by (intro sum_list_zero)
      (auto simp: drained_def list_all_iff holds_file_def wweight_def split: wstate.splits)
  moreover have "sum_list (map (qweight P) (pq s)) = 0"
    using d by (intro sum_list_zero) (auto simp: drained_def list_all_iff qweight_def)
  ultimately show ?thesis by (simp add: pending_def)
qed

lemma pending_start: "pending P (start c) = 0"
proof -
  have "sum_list (map (wweight P) (replicate WORKERS Idle)) = 0"
    by (intro sum_list_zero) (auto simp: wweight_simps)
  then show ?thesis
    by (simp add: pending_def start_def)
qed

lemma count_of_split: "count_of P xs + count_of (\<lambda>x. \<not> P x) xs = int (length xs)"
  by (induction xs) (simp_all add: count_of_def)

lemma report_step:
  assumes "w < length (pw t)" "pw t ! w = Sending p"
  shows "step post (Report w) t
           = Some (t\<lparr>pc := (if post p = Status 200 then (pc t)\<lparr>sent := sent (pc t) + 1\<rparr>
                            else (pc t)\<lparr>errors := errors (pc t) + 1\<rparr>),
                     pw := (pw t)[w := Idle]\<rparr>)"
  using assms by (simp add: step_def send_document_once_fst succeeds_def)

text \<open>
  Claim C5. Under every schedule of the producer's puts and the workers' moves, once the
  queued files have all been taken and counted, \<open>sent\<close> has grown by the number of
  queued files whose send returned status 200 and \<open>errors\<close> by the number of queued
  files whose send returned another status or raised; the two add up to the number of
  files queued, so each file is counted once. The move that counts a file adds 1 to
  \<open>sent\<close> on status 200 and 1 to \<open>errors\<close> otherwise. With five files, three of them
  sent and two refused, the counters end at 3 and 2.
\<close>

theorem consumer_counts_each_file_once:
  assumes "exec post acts (start c) = Some s" and "drained s"
  shows "sent (pc s) = sent c + count_of (\<lambda>p. post p = Status 200) (put_files acts) \<and>
         errors (pc s) = errors c + count_of (\<lambda>p. post p \<noteq> Status 200) (put_files acts) \<and>
         (sent (pc s) - sent c) + (errors (pc s) - errors c) = int (length (put_files acts)) \<and>
         (w < length (pw t) \<and> pw t ! w = Sending p \<longrightarrow>
            map_option pc (step post (Report w) t)
              = Some (if post p = Status 200 then (pc t)\<lparr>sent := sent (pc t) + 1\<rparr>
                      else (pc t)\<lparr>errors := errors (pc t) + 1\<rparr>))"
proof -
  have c0: "sent (pc (start c)) = sent c" "errors (pc (start c)) = errors c"
    by (simp_all add: start_def)
  have s: "sent (pc s) = sent c + count_of (succeeds post) (put_files acts)"
    using exec_sent [OF assms(1)] pending_drained [OF assms(2)]
    by (simp add: pending_start c0)
  have e: "errors (pc s) = errors c + count_of (\<lambda>p. \<not> succeeds post p) (put_files acts)"
    using exec_errors [OF assms(1)] pending_drained [OF assms(2)]
    by (simp add: pending_start c0)
  have "(sent (pc s) - sent c) + (errors (pc s) - errors c) = int (length (put_files acts))"
    using s e count_of_split [of "succeeds post" "put_files acts"] by simp
  moreover have "w < length (pw t) \<and> pw t ! w = Sending p \<longrightarrow>
            map_option pc (step post (Report w) t)
              = Some (if post p = Status 200 then (pc t)\<lparr>sent := sent (pc t) + 1\<rparr>
                      else (pc t)\<lparr>errors := errors (pc t) + 1\<rparr>)"
    by (auto simp: report_step)
  moreover have "succeeds post = (\<lambda>p. post p = Status 200)"
    by (rule ext) (simp add: succeeds_def)
  ultimately show ?thesis
    using s e by simp
qed

lemma five_run:
  "exec five_post five_schedule (start counters0) \<noteq> None"
  "drained (the (exec five_post five_schedule (start counters0)))"
  by code_simp+

lemma five_put_files:
  "put_files five_schedule = [''f1.jpg'', ''f2.jpg'', ''f3.png'', ''f4.mp4'', ''f5.gif'']"
  by (simp add: five_schedule_def)

lemma five_counts:
  "count_of (\<lambda>p. five_post p = Status 200) (put_files five_schedule) = 3"
  "count_of (\<lambda>p. five_post p \<noteq> Status 200) (put_files five_schedule) = 2"
  by (simp_all add: five_put_files count_of_def five_post_def)

theorem consumer_counts_each_file_once_witness:
  "sent (pc (the (exec five_post five_schedule (start counters0)))) = 3 \<and>
   errors (pc (the (exec five_post five_schedule (start counters0)))) = 2"
proof -
  have run: "exec five_post five_schedule (start counters0)
               = Some (the (exec five_post five_schedule (start counters0)))"
    using five_run(1) by simp
  show ?thesis
    using consumer_counts_each_file_once [OF run five_run(2)]
    by (simp add: five_counts counters0_def)
qed

section \<open>Properties of the geolocation fallback\<close>

lemma remap_fields_keys:
  "dict_keys (remap_fields j)
     = [''ip'', ''latitude'', ''longitude'', ''city'', ''region'', ''country_name'', ''org'',
        ''postal'', ''timezone'']"
  by (simp add: remap_fields_def dict_keys_def)

lemma remap_fields_not_empty: "remap_fields j \<noteq> PDict []"
  by (simp add: remap_fields_def)

lemma geolocate_ip_primary_down:
  assumes "truthy ip" and "http Primary ip = None"
  shows "geolocate_ip http ip
           = (case http Secondary ip of
                Some (PDict j) \<Rightarrow>
                  if dict_get j ''status'' = PStr ''success'' then remap_fields j else PDict []
              | _ \<Rightarrow> PDict [],
              [Primary, Secondary])"
  using assms by (simp add: geolocate_ip_def split: option.splits pyval.splits)

text \<open>
  Claim C6. Given no address, \<open>geolocate_ip\<close> returns the empty mapping and makes no
  request. When the first provider fails it asks the second one, and returns the remapped
  mapping, with the keys ip, latitude, longitude, city, region, country_name, org, postal
  and timezone, exactly when the status field of the answer is \<open>success\<close>; on any other
  status, or when the second request fails, it returns the empty mapping.
\<close>

theorem geolocate_ip_fallback:
  "(\<not> truthy ip \<longrightarrow> geolocate_ip http ip = (PDict [], [])) \<and>
   (truthy ip \<and> http Primary ip = None \<longrightarrow>
      snd (geolocate_ip http ip) = [Primary, Secondary] \<and>
      (secondary_success http ip \<longrightarrow>
         (\<exists>j. http Secondary ip = Some (PDict j) \<and> fst (geolocate_ip http ip) = remap_fields j) \<and>
         dict_keys (fst (geolocate_ip http ip))
           = [''ip'', ''latitude'', ''longitude'', ''city'', ''region'', ''country_name'',
              ''org'', ''postal'', ''timezone'']) \<and>
      (\<not> secondary_success http ip \<longrightarrow> fst (geolocate_ip http ip) = PDict []) \<and>
      (fst (geolocate_ip http ip) \<noteq> PDict [] \<longleftrightarrow> secondary_success http ip))"
proof (intro conjI impI)
  assume "\<not> truthy ip"
  then show "geolocate_ip http ip = (PDict [], [])"
    by (simp add: geolocate_ip_def)
next
  assume a: "truthy ip \<and> http Primary ip = None"
  then show "snd (geolocate_ip http ip) = [Primary, Secondary]"
    by (simp add: geolocate_ip_primary_down)
next
  assume a: "truthy ip \<and> http Primary ip = None" and s: "secondary_success http ip"
  from s obtain j where j: "http Secondary ip = Some (PDict j)"
      "dict_get j ''status'' = PStr ''success''"
    by (auto simp: secondary_success_def split: option.splits pyval.splits)
  with a have r: "fst (geolocate_ip http ip) = remap_fields j"
    by (simp add: geolocate_ip_primary_down)
  with j show "\<exists>j. http Secondary ip = Some (PDict j) \<and> fst (geolocate_ip http ip) = remap_fields j"
    by blast
  from r show "dict_keys (fst (geolocate_ip http ip))
           = [''ip'', ''latitude'', ''longitude'', ''city'', ''region'', ''country_name'',
              ''org'', ''postal'', ''timezone'']"
    by (simp only: remap_fields_keys)
next
  assume a: "truthy ip \<and> http Primary ip = None" and s: "\<not> secondary_success http ip"
  then show "fst (geolocate_ip http ip) = PDict []"
    by (auto simp: geolocate_ip_primary_down secondary_success_def
          split: option.splits pyval.splits)
next
  assume a: "truthy ip \<and> http Primary ip = None"
  show "fst (geolocate_ip http ip) \<noteq> PDict [] \<longleftrightarrow> secondary_success http ip"
    using a
    by (auto simp: geolocate_ip_primary_down secondary_success_def remap_fields_not_empty
          split: option.splits pyval.splits)
qed

lemma stub_http_facts:
  "stub_http Primary ip = None"
  "secondary_success stub_http (PStr ''8.8.8.8'')"
  "\<not> secondary_success stub_http (PStr ''10.0.0.1'')"
  by (simp_all add: stub_http_def secondary_success_def dict_get_def)

theorem geolocate_ip_fallback_witness:
  "geolocate_ip stub_http PNone = (PDict [], []) \<and>
   fst (geolocate_ip stub_http (PStr ''8.8.8.8''))
     = PDict [(''ip'', PStr ''8.8.8.8''), (''latitude'', PFloat (Fin (3975 / 100))),
              (''longitude'', PInt (- 84)), (''city'', PNone), (''region'', PNone),
              (''country_name'', PStr ''United States''), (''org'', PNone),
              (''postal'', PNone), (''timezone'', PNone)] \<and>
   geolocate_ip stub_http (PStr ''10.0.0.1'') = (PDict [], [Primary, Secondary])"
proof -
  have a: "geolocate_ip stub_http PNone = (PDict [], [])"
    using geolocate_ip_fallback [of PNone stub_http] by simp
  have "\<exists>j. stub_http Secondary (PStr ''8.8.8.8'') = Some (PDict j) \<and>
            fst (geolocate_ip stub_http (PStr ''8.8.8.8'')) = remap_fields j"
    using geolocate_ip_fallback [of "PStr ''8.8.8.8''" stub_http]
    by (simp add: stub_http_facts)
  then have b: "fst (geolocate_ip stub_http (PStr ''8.8.8.8''))
     = PDict [(''ip'', PStr ''8.8.8.8''), (''latitude'', PFloat (Fin (3975 / 100))),
              (''longitude'', PInt (- 84)), (''city'', PNone), (''region'', PNone),
              (''country_name'', PStr ''United States''), (''org'', PNone),
              (''postal'', PNone), (''timezone'', PNone)]"
    by (auto simp: stub_http_def remap_fields_def dict_get_def)
  have "fst (geolocate_ip stub_http (PStr ''10.0.0.1'')) = PDict [] \<and>
        snd (geolocate_ip stub_http (PStr ''10.0.0.1'')) = [Primary, Secondary]"
    using geolocate_ip_fallback [of "PStr ''10.0.0.1''" stub_http]
    by (simp add: stub_http_facts)
  then have c: "geolocate_ip stub_http (PStr ''10.0.0.1'') = (PDict [], [Primary, Secondary])"
    by (simp add: prod_eq_iff)
  from a b c show ?thesis by blast
qed

section \<open>Properties of the combined identifier\<close>

text \<open>Both derivations on a snapshot whose \<open>geo\<close> entry is a mapping.\<close>

lemma run_combined_id_mapping:
  assumes "map_of snap ''geo'' = Some (PDict g)"
  shows "run_combined_id rt snap
           = Inr (let ip4 = dict_get snap ''public_ipv4'';
                      lat = py_or (dict_get g ''latitude'') (dict_get g ''lat'');
                      lon = py_or (dict_get g ''longitude'') (dict_get g ''lon'')
                  in if truthy ip4 \<and> truthy lat \<and> truthy lon
                     then Some (py_format rt ip4 @ ''|'' @ py_format rt lat @ '','' @ py_format rt lon)
                     else if truthy ip4 then Some (py_format rt ip4 @ ''|N/A'')
                     else None)"
proof (cases "g = []")
  case True
  with assms have "py_or (dict_get snap ''geo'') (PDict []) = PDict []"
    by (simp add: py_or_def dict_get_def)
  then show ?thesis
    using True by (simp add: run_combined_id_def Let_def dict_get_def py_or_def)
next
  case False
  with assms have "py_or (dict_get snap ''geo'') (PDict []) = PDict g"
    by (simp add: py_or_def dict_get_def)
  then show ?thesis
    by (simp add: run_combined_id_def Let_def)
qed

lemma build_message_combined_id_mapping:
  assumes "map_of snap ''geo'' = Some (PDict g)"
  shows "build_message_combined_id rt snap
           = Inr (let ip4 = dict_get snap ''public_ipv4'';
                      lat = py_or (dict_get g ''latitude'') (dict_get g ''lat'');
                      lon = py_or (dict_get g ''longitude'') (dict_get g ''lon'')
                  in if truthy ip4 \<and> truthy lat \<and> truthy lon
                     then Some (py_format rt ip4 @ ''|'' @ py_format rt lat @ '','' @ py_format rt lon)
                     else if truthy ip4 then Some (py_format rt ip4 @ ''|N/A'')
                     else None)"
  using assms by (simp add: build_message_combined_id_def dict_get_default_def Let_def)

text \<open>The two derivations agree when \<open>geo\<close> is a mapping and when the snapshot has none.\<close>

lemma combined_id_same_on_mapping:
  "map_of snap ''geo'' = Some (PDict g) \<Longrightarrow>
     build_message_combined_id rt snap = run_combined_id rt snap"
  by (simp only: run_combined_id_mapping build_message_combined_id_mapping)

lemma combined_id_same_without_geo:
  "map_of snap ''geo'' = None \<Longrightarrow>
     build_message_combined_id rt snap = run_combined_id rt snap"
  by (simp add: run_combined_id_def build_message_combined_id_def dict_get_default_def
        dict_get_def py_or_def)

text \<open>
  Claim C2 asks that the two derivations of the combined identifier give the same result
  on every snapshot. They differ where the \<open>geo\<close> entry is \<open>None\<close> (the first provider
  answered with the JSON value \<open>null\<close>): \<open>run\<close> reads \<open>snapshot.get("geo") or {}\<close> and
  derives \<open>1.2.3.4|N/A\<close>, \<open>build_message_from_snapshot\<close> reads \<open>snap.get("geo", {})\<close>,
  gets \<open>None\<close> and raises \<open>AttributeError\<close> on \<open>geo.get\<close>.
\<close>

theorem combined_id_differs_on_null_geo:
  "run_combined_id rt (snap_of (PStr ''1.2.3.4'') PNone) = Inr (Some ''1.2.3.4|N/A'') \<and>
   build_message_combined_id rt (snap_of (PStr ''1.2.3.4'') PNone) = Inl AttributeError"
  by (simp add: run_combined_id_def build_message_combined_id_def snap_of_def
        dict_get_default_def dict_get_def py_or_def)

text \<open>
  Claim C3 as stated fails where a coordinate is present and equal to zero: with the
  address \<open>1.2.3.4\<close>, latitude \<open>0\<close> and longitude \<open>20.5\<close> both present, the identifier
  is \<open>1.2.3.4|N/A\<close>, in both derivations, and not \<open>1.2.3.4|0,20.5\<close>.
\<close>

theorem combined_id_zero_latitude_counterexample:
  "map_of [(''latitude'', PInt 0), (''longitude'', PFloat (Fin (41 / 2)))] ''latitude''
     = Some (PInt 0) \<and>
   map_of [(''latitude'', PInt 0), (''longitude'', PFloat (Fin (41 / 2)))] ''longitude''
     = Some (PFloat (Fin (41 / 2))) \<and>
   run_combined_id example_rt
      (snap_of (PStr ''1.2.3.4'')
         (PDict [(''latitude'', PInt 0), (''longitude'', PFloat (Fin (41 / 2)))]))
     = Inr (Some ''1.2.3.4|N/A'') \<and>
   build_message_combined_id example_rt
      (snap_of (PStr ''1.2.3.4'')
         (PDict [(''latitude'', PInt 0), (''longitude'', PFloat (Fin (41 / 2)))]))
     = Inr (Some ''1.2.3.4|N/A'') \<and>
   run_combined_id example_rt
      (snap_of (PStr ''1.2.3.4'')
         (PDict [(''latitude'', PInt 0), (''longitude'', PFloat (Fin (41 / 2)))]))
     \<noteq> Inr (Some ''1.2.3.4|0,20.5'')"
  by (simp add: run_combined_id_def build_message_combined_id_def snap_of_def
        dict_get_default_def dict_get_def py_or_def)

text \<open>
  Claim C3, amended. For a snapshot whose \<open>geo\<close> entry is a mapping, with \<open>lat\<close> the
  value of \<open>latitude\<close> or else of \<open>lat\<close>, and \<open>lon\<close> likewise: the combined identifier
  is \<open>{public_ipv4}|{lat},{lon}\<close> when the address and both coordinates are truthy
  (present, and neither zero nor empty), \<open>{public_ipv4}|N/A\<close> when the address is truthy
  and a coordinate is missing, zero or empty, and \<open>None\<close> when the address is missing or
  empty. With the address \<open>1.2.3.4\<close> and the coordinates \<open>10.5\<close> and \<open>20.5\<close>, printed
  so, it is \<open>1.2.3.4|10.5,20.5\<close>.
\<close>

theorem combined_id_value:
  assumes "map_of snap ''geo'' = Some (PDict g)"
    and "ip4 = dict_get snap ''public_ipv4''"
    and "lat = py_or (dict_get g ''latitude'') (dict_get g ''lat'')"
    and "lon = py_or (dict_get g ''longitude'') (dict_get g ''lon'')"
  shows "(truthy ip4 \<and> truthy lat \<and> truthy lon \<longrightarrow>
            run_combined_id rt snap
              = Inr (Some (py_format rt ip4 @ ''|'' @ py_format rt lat @ '','' @ py_format rt lon)) \<and>
            build_message_combined_id rt snap
              = Inr (Some (py_format rt ip4 @ ''|'' @ py_format rt lat @ '','' @ py_format rt lon))) \<and>
         (truthy ip4 \<and> \<not> (truthy lat \<and> truthy lon) \<longrightarrow>
            run_combined_id rt snap = Inr (Some (py_format rt ip4 @ ''|N/A'')) \<and>
            build_message_combined_id rt snap = Inr (Some (py_format rt ip4 @ ''|N/A''))) \<and>
         (\<not> truthy ip4 \<longrightarrow>
            run_combined_id rt snap = Inr None \<and> build_message_combined_id rt snap = Inr None) \<and>
         (snap = snap_of (PStr ''1.2.3.4'')
                   (PDict [(''latitude'', PFloat (Fin (21 / 2))),
                           (''longitude'', PFloat (Fin (41 / 2)))]) \<and>
          rt (PFloat (Fin (21 / 2))) = ''10.5'' \<and> rt (PFloat (Fin (41 / 2))) = ''20.5'' \<longrightarrow>
            run_combined_id rt snap = Inr (Some ''1.2.3.4|10.5,20.5'') \<and>
            build_message_combined_id rt snap = Inr (Some ''1.2.3.4|10.5,20.5''))"
proof -
  have r: "run_combined_id rt snap
           = Inr (if truthy ip4 \<and> truthy lat \<and> truthy lon
                  then Some (py_format rt ip4 @ ''|'' @ py_format rt lat @ '','' @ py_format rt lon)
                  else if truthy ip4 then Some (py_format rt ip4 @ ''|N/A'') else None)"
    using run_combined_id_mapping [OF assms(1), of rt] assms(2-4) by (simp add: Let_def)
  have b: "build_message_combined_id rt snap = run_combined_id rt snap"
    using assms(1) by (rule combined_id_same_on_mapping)
  have ex: "run_combined_id rt snap = Inr (Some ''1.2.3.4|10.5,20.5'')"
    if "snap = snap_of (PStr ''1.2.3.4'')
                   (PDict [(''latitude'', PFloat (Fin (21 / 2))),
                           (''longitude'', PFloat (Fin (41 / 2)))])"
      and "rt (PFloat (Fin (21 / 2))) = ''10.5''" and "rt (PFloat (Fin (41 / 2))) = ''20.5''"
    using that
    by (simp add: run_combined_id_def snap_of_def dict_get_def py_or_def)
  show ?thesis
    unfolding b using r ex by auto
qed

theorem combined_id_value_witness:
  "run_combined_id example_rt
      (snap_of (PStr ''1.2.3.4'')
         (PDict [(''latitude'', PFloat (Fin (21 / 2))), (''longitude'', PFloat (Fin (41 / 2)))]))
     = Inr (Some ''1.2.3.4|10.5,20.5'') \<and>
   build_message_combined_id example_rt (snap_of (PStr ''1.2.3.4'') (PDict []))
     = Inr (Some ''1.2.3.4|N/A'') \<and>
   build_message_combined_id example_rt (snap_of PNone (PDict [])) = Inr None"
  using combined_id_value
          [of "snap_of (PStr ''1.2.3.4'')
                 (PDict [(''latitude'', PFloat (Fin (21 / 2))),
                         (''longitude'', PFloat (Fin (41 / 2)))])"
              "[(''latitude'', PFloat (Fin (21 / 2))), (''longitude'', PFloat (Fin (41 / 2)))]"
              "PStr ''1.2.3.4''" "PFloat (Fin (21 / 2))" "PFloat (Fin (41 / 2))" example_rt]
        combined_id_value
          [of "snap_of (PStr ''1.2.3.4'') (PDict [])" "[]" "PStr ''1.2.3.4''" PNone PNone
              example_rt]
        combined_id_value
          [of "snap_of PNone (PDict [])" "[]" PNone PNone PNone example_rt]
  by (simp add: snap_of_def dict_get_def py_or_def example_rt_def)

text \<open>
  Claim C10 as stated fails where the other spelling of the key holds a truthy value: with
  \<open>latitude\<close> equal to 0, \<open>lat\<close> equal to 5 and \<open>longitude\<close> equal to 20.5, both
  derivations take \<open>0 or 5 = 5\<close> for the latitude and give \<open>1.2.3.4|5,20.5\<close>, not
  \<open>1.2.3.4|N/A\<close>.
\<close>

theorem combined_id_zero_coordinate_counterexample:
  "dict_get [(''latitude'', PInt 0), (''lat'', PInt 5), (''longitude'', PFloat (Fin (41 / 2)))]
      ''latitude'' = PInt 0 \<and>
   run_combined_id example_rt
      (snap_of (PStr ''1.2.3.4'')
         (PDict [(''latitude'', PInt 0), (''lat'', PInt 5),
                 (''longitude'', PFloat (Fin (41 / 2)))]))
     = Inr (Some ''1.2.3.4|5,20.5'') \<and>
   build_message_combined_id example_rt
      (snap_of (PStr ''1.2.3.4'')
         (PDict [(''latitude'', PInt 0), (''lat'', PInt 5),
                 (''longitude'', PFloat (Fin (41 / 2)))]))
     = Inr (Some ''1.2.3.4|5,20.5'') \<and>
   run_combined_id example_rt
      (snap_of (PStr ''1.2.3.4'')
         (PDict [(''latitude'', PInt 0), (''lat'', PInt 5),
                 (''longitude'', PFloat (Fin (41 / 2)))]))
     \<noteq> Inr (Some ''1.2.3.4|N/A'')"
  by (simp add: run_combined_id_def build_message_combined_id_def snap_of_def
        dict_get_default_def dict_get_def py_or_def example_rt_def show_int_def show_nat.simps)

text \<open>
  Claim C10, amended. With a public IPv4 resolved and a geolocation mapping in which the
  latitude or the longitude is the number 0 under one spelling of its key (\<open>latitude\<close> or
  \<open>lat\<close>, \<open>longitude\<close> or \<open>lon\<close>) and the other spelling of that key holds nothing
  truthy, both derivations give \<open>{public_ipv4}|N/A\<close>.
\<close>

theorem combined_id_zero_coordinate:
  assumes "map_of snap ''geo'' = Some (PDict g)"
    and "truthy (dict_get snap ''public_ipv4'')"
    and "(is_zero (dict_get g ''latitude'') \<and> \<not> truthy (dict_get g ''lat'')) \<or>
         (\<not> truthy (dict_get g ''latitude'') \<and> is_zero (dict_get g ''lat'')) \<or>
         (is_zero (dict_get g ''longitude'') \<and> \<not> truthy (dict_get g ''lon'')) \<or>
         (\<not> truthy (dict_get g ''longitude'') \<and> is_zero (dict_get g ''lon''))"
  shows "run_combined_id rt snap
           = Inr (Some (py_format rt (dict_get snap ''public_ipv4'') @ ''|N/A'')) \<and>
         build_message_combined_id rt snap
           = Inr (Some (py_format rt (dict_get snap ''public_ipv4'') @ ''|N/A''))"
proof -
  have "\<not> truthy (py_or (dict_get g ''latitude'') (dict_get g ''lat'')) \<or>
        \<not> truthy (py_or (dict_get g ''longitude'') (dict_get g ''lon''))"
    using assms(3) by (auto simp: is_zero_def py_or_def)
  then show ?thesis
    using assms(2)
    by (auto simp: run_combined_id_mapping [OF assms(1)]
          build_message_combined_id_mapping [OF assms(1)] Let_def)
qed

theorem combined_id_zero_coordinate_witness:
  "run_combined_id example_rt
      (snap_of (PStr ''1.2.3.4'')
         (PDict [(''latitude'', PFloat (Fin 0)), (''longitude'', PFloat (Fin (41 / 2)))]))
     = Inr (Some ''1.2.3.4|N/A'') \<and>
   build_message_combined_id example_rt
      (snap_of (PStr ''1.2.3.4'')
         (PDict [(''latitude'', PFloat (Fin (21 / 2))), (''longitude'', PInt 0)]))
     = Inr (Some ''1.2.3.4|N/A'') \<and>
   run_combined_id example_rt
      (snap_of (PStr ''1.2.3.4'')
         (PDict [(''lat'', PInt 0), (''lon'', PFloat (Fin (41 / 2)))]))
     = Inr (Some ''1.2.3.4|N/A'')"
  using combined_id_zero_coordinate
          [of "snap_of (PStr ''1.2.3.4'')
                 (PDict [(''latitude'', PFloat (Fin 0)), (''longitude'', PFloat (Fin (41 / 2)))])"
              "[(''latitude'', PFloat (Fin 0)), (''longitude'', PFloat (Fin (41 / 2)))]"
              example_rt]
        combined_id_zero_coordinate
          [of "snap_of (PStr ''1.2.3.4'')
                 (PDict [(''latitude'', PFloat (Fin (21 / 2))), (''longitude'', PInt 0)])"
              "[(''latitude'', PFloat (Fin (21 / 2))), (''longitude'', PInt 0)]"
              example_rt]
        combined_id_zero_coordinate
          [of "snap_of (PStr ''1.2.3.4'')
                 (PDict [(''lat'', PInt 0), (''lon'', PFloat (Fin (41 / 2)))])"
              "[(''lat'', PInt 0), (''lon'', PFloat (Fin (41 / 2)))]"
              example_rt]
  by (simp add: snap_of_def dict_get_def is_zero_def)

section \<open>Properties of the rounding\<close>

lemma round_even_range: "\<lfloor>y\<rfloor> \<le> round_even y \<and> round_even y \<le> \<lfloor>y\<rfloor> + 1"
  by (simp add: round_even_def Let_def)

lemma round_even_of_int: "round_even (of_int n) = n"
  by (simp add: round_even_def)

lemma round_even_mono:
  assumes "a \<le> b"
  shows "round_even a \<le> round_even b"
proof (cases "\<lfloor>a\<rfloor> < \<lfloor>b\<rfloor>")
  case True
  have "round_even a \<le> \<lfloor>a\<rfloor> + 1"
    using round_even_range [of a] by simp
  also have "\<dots> \<le> \<lfloor>b\<rfloor>"
    using True by simp
  also have "\<dots> \<le> round_even b"
    using round_even_range [of b] by simp
  finally show ?thesis .
next
  case False
  with assms have eq: "\<lfloor>a\<rfloor> = \<lfloor>b\<rfloor>"
    using floor_mono [of a b] by linarith
  have "a - of_int \<lfloor>b\<rfloor> \<le> b - of_int \<lfloor>b\<rfloor>"
    using assms by simp
  then show ?thesis
    by (auto simp: round_even_def Let_def eq)
qed

lemma round_even_le_int: "y \<le> of_int n \<Longrightarrow> round_even y \<le> n"
  using round_even_mono [of y "of_int n"] by (simp add: round_even_of_int)

lemma round_even_ge_int: "of_int n \<le> y \<Longrightarrow> n \<le> round_even y"
  using round_even_mono [of "of_int n" y] by (simp add: round_even_of_int)

lemma bitlen_powi:
  assumes "0 < n"
  shows "(2::rat) powi (bitlen n - 1) \<le> of_int n \<and> of_int n < (2::rat) powi bitlen n"
proof -
  have b: "2 ^ nat (bitlen n - 1) \<le> n \<and> n < 2 ^ nat (bitlen n)"
    using assms by (rule bitlen_bounds)
  have ge: "1 \<le> bitlen n"
    using assms by (simp add: bitlen_alt_def)
  have "(of_int (2 ^ nat (bitlen n - 1)) :: rat) \<le> of_int n"
    using b by (simp only: of_int_le_iff)
  moreover have "(of_int n :: rat) < of_int (2 ^ nat (bitlen n))"
    using b by (simp only: of_int_less_iff)
  ultimately show ?thesis
    using ge by (simp add: power_int_def)
qed

lemma quot_lo:
  fixes n d :: rat
  assumes "0 < d" "2 powi a \<le> n" "d < 2 powi b"
  shows "2 powi (a - b) \<le> n / d"
proof -
  have "0 < (2::rat) powi a"
    by simp
  with assms(2) have "0 \<le> n"
    by linarith
  with assms have "(2::rat) powi a / 2 powi b \<le> n / d"
    by (intro frac_le) simp_all
  then show ?thesis
    by (simp add: power_int_diff)
qed

lemma quot_hi:
  fixes n d :: rat
  assumes "0 \<le> n" "n < 2 powi a" "2 powi b \<le> d"
  shows "n / d < 2 powi (a - b)"
proof -
  have "n / d < (2::rat) powi a / 2 powi b"
    using assms by (intro frac_less) simp_all
  then show ?thesis
    by (simp add: power_int_diff)
qed

lemma bexp_bounds:
  assumes "0 < x"
  shows "2 powi bexp x \<le> x \<and> x < 2 powi (bexp x + 1)"
proof -
  obtain n d where q: "quotient_of x = (n, d)"
    by (cases "quotient_of x") auto
  then have d: "0 < d" and x: "x = of_int n / of_int d"
    by (simp_all add: quotient_of_denom_pos quotient_of_div)
  with assms have n: "0 < n"
    by (simp add: zero_less_divide_iff)
  have lo: "2 powi (bitlen n - 1 - bitlen d) \<le> x"
    unfolding x using d bitlen_powi [OF n] bitlen_powi [OF d]
    by (intro quot_lo) simp_all
  have hi: "x < 2 powi (bitlen n - (bitlen d - 1))"
    unfolding x using n bitlen_powi [OF n] bitlen_powi [OF d]
    by (intro quot_hi) simp_all
  have e1: "bitlen n - 1 - bitlen d = bitlen n - bitlen d - 1"
    and e2: "bitlen n - (bitlen d - 1) = bitlen n - bitlen d + 1"
    by simp_all
  show ?thesis
    using lo hi q unfolding e1 e2 by (auto simp: bexp_def Let_def)
qed

lemma powi_less_exp:
  assumes "(2::rat) powi a \<le> x" "x < 2 powi b"
  shows "a < b"
proof (rule ccontr)
  assume "\<not> a < b"
  then have "(2::rat) powi b \<le> 2 powi a"
    by (intro power_int_increasing) simp_all
  with assms show False
    by linarith
qed

lemma bexp_unique:
  assumes "2 powi e \<le> x" "x < 2 powi (e + 1)"
  shows "bexp x = e"
proof -
  have "0 < (2::rat) powi e"
    by simp
  with assms(1) have pos: "0 < x"
    by linarith
  note b = bexp_bounds [OF pos]
  have "e < bexp x + 1"
    using assms(1) b by (intro powi_less_exp [of e x]) simp_all
  moreover have "bexp x < e + 1"
    using assms(2) b by (intro powi_less_exp [of "bexp x" x]) simp_all
  ultimately show ?thesis
    by simp
qed

lemma bexp_mono:
  assumes "0 < x" "x \<le> y"
  shows "bexp x \<le> bexp y"
proof -
  have "0 < y"
    using assms by simp
  then have "y < 2 powi (bexp y + 1)"
    using bexp_bounds by blast
  moreover have "2 powi bexp x \<le> x"
    using bexp_bounds [OF assms(1)] by blast
  ultimately have "bexp x < bexp y + 1"
    using assms(2) by (intro powi_less_exp [of "bexp x" y]) simp_all
  then show ?thesis
    by simp
qed

lemma quantum_mono: "0 < x \<Longrightarrow> x \<le> y \<Longrightarrow> quantum x \<le> quantum y"
  using bexp_mono [of x y] by (simp add: quantum_def)

lemma scaled_less:
  assumes "0 < x"
  shows "x / 2 powi quantum x < 2 ^ 53"
proof -
  have "x < 2 powi (bexp x + 1)"
    using bexp_bounds [OF assms] by blast
  also have "\<dots> \<le> 2 powi (quantum x + 53)"
    by (intro power_int_increasing) (simp_all add: quantum_def)
  also have "\<dots> = 2 powi quantum x * 2 ^ 53"
    by (simp add: power_int_add)
  finally show ?thesis
    by (simp add: pos_divide_less_eq mult.commute)
qed

lemma scaled_ge:
  assumes "0 < x" "- 1074 < quantum x"
  shows "2 ^ 52 \<le> x / 2 powi quantum x"
proof -
  have q: "bexp x = quantum x + 52"
    using assms(2) by (simp add: quantum_def split: if_splits add: max_def)
  have "(2::rat) powi quantum x * 2 ^ 52 = 2 powi (quantum x + 52)"
    by (simp add: power_int_add)
  also have "\<dots> \<le> x"
    using bexp_bounds [OF assms(1)] q by simp
  finally show ?thesis
    by (simp add: pos_le_divide_eq mult.commute)
qed

lemma mant_range:
  assumes "0 < x"
  shows "0 \<le> round_even (x / 2 powi quantum x) \<and> round_even (x / 2 powi quantum x) \<le> 2 ^ 53"
proof -
  have "(of_int 0 :: rat) \<le> x / 2 powi quantum x"
    using assms by simp
  then have "0 \<le> round_even (x / 2 powi quantum x)"
    by (rule round_even_ge_int)
  moreover have "x / 2 powi quantum x \<le> of_int (2 ^ 53)"
    using scaled_less [OF assms] by simp
  then have "round_even (x / 2 powi quantum x) \<le> 2 ^ 53"
    by (rule round_even_le_int)
  ultimately show ?thesis by simp
qed

lemma b64_val_nonneg: "0 < x \<Longrightarrow> 0 \<le> b64_val x"
  using mant_range [of x] by (simp add: b64_val_def)

lemma b64_val_le_top:
  assumes "0 < x"
  shows "b64_val x \<le> 2 powi (quantum x + 53)"
proof -
  have "(of_int (round_even (x / 2 powi quantum x)) :: rat) \<le> of_int (2 ^ 53)"
    using mant_range [OF assms] by (simp only: of_int_le_iff)
  then have "b64_val x \<le> 2 ^ 53 * 2 powi quantum x"
    unfolding b64_val_def by (intro mult_right_mono) simp_all
  then show ?thesis
    by (simp add: power_int_add mult.commute)
qed

lemma b64_val_ge_bottom:
  assumes "0 < x" "- 1074 < quantum x"
  shows "2 powi (quantum x + 52) \<le> b64_val x"
proof -
  have "of_int (2 ^ 52) \<le> x / 2 powi quantum x"
    using scaled_ge [OF assms] by simp
  then have "2 ^ 52 \<le> round_even (x / 2 powi quantum x)"
    by (rule round_even_ge_int)
  then have "(of_int (2 ^ 52) :: rat) \<le> of_int (round_even (x / 2 powi quantum x))"
    by (simp only: of_int_le_iff)
  then have "2 ^ 52 * 2 powi quantum x \<le> b64_val x"
    unfolding b64_val_def by (intro mult_right_mono) simp_all
  then show ?thesis
    by (simp add: power_int_add mult.commute)
qed

lemma b64_val_mono:
  assumes "0 < x" "x \<le> y"
  shows "b64_val x \<le> b64_val y"
proof (cases "quantum x = quantum y")
  case True
  have "x / 2 powi quantum y \<le> y / 2 powi quantum y"
    using assms(2) by (simp add: divide_right_mono)
  then have "round_even (x / 2 powi quantum y) \<le> round_even (y / 2 powi quantum y)"
    by (rule round_even_mono)
  then have "(of_int (round_even (x / 2 powi quantum y)) :: rat)
               \<le> of_int (round_even (y / 2 powi quantum y))"
    by (simp only: of_int_le_iff)
  then show ?thesis
    unfolding b64_val_def True by (intro mult_right_mono) simp_all
next
  case False
  have y: "0 < y"
    using assms by simp
  have lt: "quantum x < quantum y"
    using quantum_mono [OF assms] False by simp
  have "- 1074 \<le> quantum x"
    by (simp add: quantum_def)
  with lt have "- 1074 < quantum y"
    by simp
  then have "2 powi (quantum y + 52) \<le> b64_val y"
    using y by (intro b64_val_ge_bottom)
  moreover have "(2::rat) powi (quantum x + 53) \<le> 2 powi (quantum y + 52)"
    using lt by (intro power_int_increasing) simp_all
  ultimately show ?thesis
    using b64_val_le_top [OF assms(1)] by linarith
qed

lemma bitlen_le_54:
  assumes "0 \<le> m" "m \<le> 2 ^ 53"
  shows "bitlen m \<le> 54"
proof -
  have "nat m < 2 ^ 54"
    using assms by simp
  then have "floorlog 2 (nat m) \<le> 54"
    by (simp add: floorlog_le_iff)
  then show ?thesis
    by (simp add: bitlen_def)
qed

lemma b64_small:
  assumes "0 < x" "x \<le> 1024"
  shows "b64 x = Fin (b64_val x)"
proof -
  have "2 powi 10 \<le> (1024::rat)" "(1024::rat) < 2 powi (10 + 1)"
    by simp_all
  then have "bexp 1024 = 10"
    by (rule bexp_unique)
  with bexp_mono [OF assms] have "quantum x \<le> - 42"
    by (simp add: quantum_def)
  moreover have "bitlen (round_even (x / 2 powi quantum x)) \<le> 54"
    using mant_range [OF assms(1)] by (intro bitlen_le_54) simp_all
  ultimately show ?thesis
    using assms(1) by (simp add: b64_def)
qed

lemma b64_val_exact:
  assumes "2 powi e \<le> c" "c < 2 powi (e + 1)" "- 1022 \<le> e" "c / 2 powi (e - 52) = of_int m"
  shows "b64_val c = c"
proof -
  have q: "quantum c = e - 52"
    using bexp_unique [OF assms(1,2)] assms(3) by (simp add: quantum_def)
  have "round_even (c / 2 powi (e - 52)) = m"
    by (simp only: assms(4) round_even_of_int)
  then have "b64_val c = c / 2 powi (e - 52) * 2 powi (e - 52)"
    by (simp add: b64_val_def q assms(4))
  then show ?thesis
    by simp
qed

lemma b64_val_1: "b64_val 1 = 1"
  by (rule b64_val_exact [of 0 _ "2 ^ 52"]) simp_all

lemma b64_val_10: "b64_val 10 = 10"
  by (rule b64_val_exact [of 3 _ "10 * 2 ^ 49"]) simp_all

lemma b64_le_bound:
  assumes "0 \<le> x" "x \<le> c" "c \<le> 1024" "b64_val c = c"
  shows "\<exists>u. b64 x = Fin u \<and> 0 \<le> u \<and> u \<le> c"
proof (cases "x = 0")
  case True
  then show ?thesis
    using assms by (simp add: b64_def)
next
  case False
  with assms have pos: "0 < x"
    by simp
  have "b64 x = Fin (b64_val x)"
    using pos assms by (intro b64_small) simp_all
  moreover have "b64_val x \<le> c"
    using b64_val_mono [OF pos assms(2)] assms(4) by simp
  ultimately show ?thesis
    using b64_val_nonneg [OF pos] by simp
qed

lemma b64_nonneg:
  assumes "0 \<le> x" "b64 x = Fin u"
  shows "0 \<le> u"
  using assms b64_val_nonneg [of x]
  by (cases "x = 0") (auto simp: b64_def Let_def split: if_splits)

lemma b64_eval:
  assumes "2 powi e \<le> x" "x < 2 powi (e + 1)" "- 1022 \<le> e" "e \<le> 1022"
    and "round_even (x / 2 powi (e - 52)) = m"
  shows "b64 x = Fin (of_int m * 2 powi (e - 52))"
    and "b64 (- x) = Fin (- (of_int m * 2 powi (e - 52)))"
proof -
  have "0 < (2::rat) powi e"
    by simp
  with assms(1) have pos: "0 < x"
    by linarith
  have be: "bexp x = e"
    using assms(1,2) by (rule bexp_unique)
  then have q: "quantum x = e - 52"
    using assms(3) by (simp add: quantum_def)
  have v: "b64_val x = of_int m * 2 powi (e - 52)"
    by (simp add: b64_val_def q assms(5))
  have "bitlen (round_even (x / 2 powi quantum x)) \<le> 54"
    using mant_range [OF pos] by (intro bitlen_le_54) simp_all
  then have small: "\<not> 1024 < quantum x + bitlen (round_even (x / 2 powi quantum x))"
    using q assms(4) by simp
  show "b64 x = Fin (of_int m * 2 powi (e - 52))"
    using pos small v by (simp add: b64_def)
  show "b64 (- x) = Fin (- (of_int m * 2 powi (e - 52)))"
    using pos small v by (simp add: b64_def)
qed

lemma round_even_near:
  assumes "\<bar>y - of_int m\<bar> < 1 / 2"
  shows "round_even y = m"
proof (cases "of_int m \<le> y")
  case True
  with assms have "\<lfloor>y\<rfloor> = m"
    by (intro floor_unique) linarith+
  with assms True show ?thesis
    by (auto simp: round_even_def Let_def)
next
  case False
  with assms have "of_int (m - 1) \<le> y" "y < of_int (m - 1) + 1"
    by (auto simp: abs_less_iff)
  then have "\<lfloor>y\<rfloor> = m - 1"
    by (rule floor_unique)
  with assms False show ?thesis
    by (auto simp: round_even_def Let_def)
qed

lemma round_even_tie:
  assumes "y = of_int m + 1 / 2" "even m"
  shows "round_even y = m"
proof -
  have "\<lfloor>y\<rfloor> = m"
    using assms(1) by (intro floor_unique) simp_all
  with assms show ?thesis
    by (simp add: round_even_def Let_def)
qed

lemma round_even_nearI: "\<bar>y - of_int m\<bar> < 1 / 2 \<Longrightarrow> (round_even y = m) = True"
  by (simp add: round_even_near)

lemma round_even_tieI: "y = of_int m + 1 / 2 \<Longrightarrow> even m \<Longrightarrow> (round_even y = m) = True"
  by (simp add: round_even_tie)

lemma b64_055: "b64 (55 / 100) = Fin (4953959590107546 / 2 ^ 53)"
  using b64_eval(1) [of "- 1" "55 / 100" 4953959590107546]
  by (simp add: round_even_nearI)

lemma b64_55: "b64 (4953959590107546 / 2 ^ 53 * 10) = Fin (11 / 2)"
  using b64_eval(1) [of 2 "4953959590107546 / 2 ^ 53 * 10" 6192449487634432]
  by (simp add: round_even_tieI)

lemma b64_exact_examples:
  "b64 100 = Fin 100" "b64 55 = Fin 55" "b64 150 = Fin 150" "b64 (- 25) = Fin (- 25)"
  "b64 1 = Fin 1" "b64 10 = Fin 10" "b64 (3 / 2) = Fin (3 / 2)" "b64 15 = Fin 15"
  "b64 (- (1 / 4)) = Fin (- (1 / 4))" "b64 (- (5 / 2)) = Fin (- (5 / 2))"
  "b64 (1 / 2) = Fin (1 / 2)" "b64 5 = Fin 5" 
  using b64_eval(1) [of 6 100 "100 * 2 ^ 46"] b64_eval(1) [of 5 55 "55 * 2 ^ 47"]
    b64_eval(1) [of 7 150 "150 * 2 ^ 45"] b64_eval(2) [of 4 25 "25 * 2 ^ 48"]
    b64_eval(1) [of 0 1 "2 ^ 52"] b64_eval(1) [of 3 10 "10 * 2 ^ 49"]
    b64_eval(1) [of 0 "3 / 2" "3 * 2 ^ 51"] b64_eval(1) [of 3 15 "15 * 2 ^ 49"]
    b64_eval(2) [of "- 2" "1 / 4" "2 ^ 52"] b64_eval(2) [of 1 "5 / 2" "5 * 2 ^ 50"]
    b64_eval(1) [of "- 1" "1 / 2" "2 ^ 52"] b64_eval(1) [of 2 5 "5 * 2 ^ 50"]
  by (simp_all add: round_even_nearI)

lemma b64_large_examples:
  "b64 (10 ^ 18) = Fin (10 ^ 18)" "b64 (10 ^ 19) = Fin (10 ^ 19)"
  using b64_eval(1) [of 59 "10 ^ 18" "10 ^ 18 div 2 ^ 7"]
    b64_eval(1) [of 63 "10 ^ 19" "10 ^ 19 div 2 ^ 11"]
  by (simp_all add: round_even_nearI)

lemma floor_ceiling_examples:
  "\<lceil>- (5 / 2) :: rat\<rceil> = - 2" "\<lfloor>- (5 / 2) :: rat\<rfloor> = - 3" "\<lfloor>11 / 2 :: rat\<rfloor> = 5"
  by (simp_all add: ceiling_def floor_eq_iff)

section \<open>Properties of the battery bar\<close>

lemma b64_0: "b64 0 = Fin 0"
  by (simp add: b64_def)

lemma bar_value_55: "float_mul (float_div (Fin 55) 100) 10 = Fin (11 / 2)"
proof -
  have "float_div (Fin 55) 100 = Fin (4953959590107546 / 2 ^ 53)"
    unfolding float_div_def using b64_055 by simp
  then show ?thesis
    unfolding float_mul_def using b64_55 by simp
qed

lemma bar_values:
  "float_mul (float_div (Fin 100) 100) 10 = Fin 10"
  "float_mul (float_div (Fin 0) 100) 10 = Fin 0"
  "float_mul (float_div (Fin (- 25)) 100) 10 = Fin (- (5 / 2))"
  "float_mul (float_div (Fin 150) 100) 10 = Fin 15"
  "float_mul (float_div (Fin 50) 100) 10 = Fin 5"
  by (simp_all add: float_div_def float_mul_def b64_exact_examples b64_0)

lemma py_float_PInt_examples:
  "py_float parse (PInt 100) = Inr (Fin 100)" "py_float parse (PInt 0) = Inr (Fin 0)"
  "py_float parse (PInt 55) = Inr (Fin 55)" "py_float parse (PInt (- 25)) = Inr (Fin (- 25))"
  "py_float parse (PInt 150) = Inr (Fin 150)"
  by (simp_all add: py_float_def b64_exact_examples b64_0)

lemma str_limit_ge_10: "10 \<le> str_limit spare"
  by (simp add: str_limit_def PY_SSIZE_T_MAX_def)

lemma str_times_fits:
  assumes "- PY_SSIZE_T_MAX - 1 \<le> n" "n \<le> str_limit spare"
  shows "str_times spare ch n = Inr (replicate (nat n) ch)"
  using assms by (simp add: str_times_def str_limit_def)

lemma str_times_too_long:
  assumes "str_limit spare < n"
  shows "\<exists>e. str_times spare ch n = Inl e"
  using assms by (auto simp: str_times_def str_limit_def PY_SSIZE_T_MAX_def)

lemma bars_of_count:
  assumes "py_float parse v = Inr (Fin p)"
    and "float_mul (float_div (Fin p) 100) 10 = Fin y"
    and "bars = (if 0 \<le> y then \<lfloor>y\<rfloor> else \<lceil>y\<rceil>)"
    and "- PY_SSIZE_T_MAX - 1 \<le> bars" "bars \<le> str_limit spare"
    and "- PY_SSIZE_T_MAX - 1 \<le> 10 - bars" "10 - bars \<le> str_limit spare"
  shows "battery_bars parse spare v
           = replicate (nat bars) SOLID @ replicate (nat (10 - bars)) LIGHT"
  using assms(1-3) str_times_fits [OF assms(4,5), of SOLID] str_times_fits [OF assms(6,7), of LIGHT]
  by (simp add: battery_bars_def float_int_def)

lemma count_bounds:
  "- PY_SSIZE_T_MAX - 1 \<le> 10" "- PY_SSIZE_T_MAX - 1 \<le> 0" "- PY_SSIZE_T_MAX - 1 \<le> 5"
  "- PY_SSIZE_T_MAX - 1 \<le> - 2" "- PY_SSIZE_T_MAX - 1 \<le> 12" "- PY_SSIZE_T_MAX - 1 \<le> 15"
  "- PY_SSIZE_T_MAX - 1 \<le> - 5"
  "12 \<le> str_limit example_spare" "15 \<le> str_limit example_spare"
  "- 2 \<le> str_limit example_spare" "- 5 \<le> str_limit example_spare"
  by (simp_all add: PY_SSIZE_T_MAX_def str_limit_def example_spare_def)

lemma battery_bars_examples:
  "battery_bars parse spare (PInt 100) = replicate 10 SOLID"
  "battery_bars parse spare (PInt 0) = replicate 10 LIGHT"
  "battery_bars parse spare (PInt 55) = replicate 5 SOLID @ replicate 5 LIGHT"
proof -
  note lim = str_limit_ge_10 [of spare]
  show "battery_bars parse spare (PInt 100) = replicate 10 SOLID"
    using bars_of_count [of parse "PInt 100" 100 10 10 spare] lim
    by (simp add: py_float_PInt_examples bar_values count_bounds PY_SSIZE_T_MAX_def)
  show "battery_bars parse spare (PInt 0) = replicate 10 LIGHT"
    using bars_of_count [of parse "PInt 0" 0 0 0 spare] lim
    by (simp add: py_float_PInt_examples bar_values count_bounds PY_SSIZE_T_MAX_def)
  show "battery_bars parse spare (PInt 55) = replicate 5 SOLID @ replicate 5 LIGHT"
    using bars_of_count [of parse "PInt 55" 55 "11 / 2" 5 spare] lim
    by (simp add: py_float_PInt_examples bar_value_55 floor_ceiling_examples count_bounds
          PY_SSIZE_T_MAX_def)
qed

lemma battery_bars_out_of_range:
  "battery_bars parse example_spare (PInt (- 25)) = replicate 12 LIGHT"
  "battery_bars parse example_spare (PInt 150) = replicate 15 SOLID"
proof -
  show "battery_bars parse example_spare (PInt (- 25)) = replicate 12 LIGHT"
    using bars_of_count [of parse "PInt (- 25)" "- 25" "- (5 / 2)" "- 2" example_spare]
    by (simp add: py_float_PInt_examples bar_values floor_ceiling_examples count_bounds
          PY_SSIZE_T_MAX_def)
  show "battery_bars parse example_spare (PInt 150) = replicate 15 SOLID"
    using bars_of_count [of parse "PInt 150" 150 15 15 example_spare]
    by (simp add: py_float_PInt_examples bar_values count_bounds PY_SSIZE_T_MAX_def)
qed

lemma bar_value_cases:
  assumes "float_mul (float_div (Fin p) 100) 10 = Fin y"
  shows "\<exists>a. b64 (p / 100) = Fin a \<and> b64 (a * 10) = Fin y"
proof (cases "b64 (p / 100)")
  case (Fin a)
  with assms have "b64 (a * 10) = Fin y"
    by (simp add: float_div_def float_mul_def)
  with Fin show ?thesis
    by blast
next
  case PosInf
  with assms show ?thesis
    by (simp add: float_div_def float_mul_def)
next
  case NegInf
  with assms show ?thesis
    by (simp add: float_div_def float_mul_def)
next
  case NaN
  with assms show ?thesis
    by (simp add: float_div_def float_mul_def)
qed

lemma bar_value_nonneg:
  assumes "0 \<le> p" "float_mul (float_div (Fin p) 100) 10 = Fin y"
  shows "0 \<le> y"
proof -
  from bar_value_cases [OF assms(2)]
  obtain a where a: "b64 (p / 100) = Fin a" and y: "b64 (a * 10) = Fin y"
    by blast
  have "0 \<le> p / 100"
    using assms(1) by simp
  then have "0 \<le> a"
    using a by (rule b64_nonneg)
  then have "0 \<le> a * 10"
    by simp
  then show ?thesis
    using y by (rule b64_nonneg)
qed


lemma bar_value_range:
  assumes "0 \<le> p" "p \<le> 100"
  shows "\<exists>y. float_mul (float_div (Fin p) 100) 10 = Fin y \<and> 0 \<le> y \<and> y \<le> 10"
proof -
  have "0 \<le> p / 100" "p / 100 \<le> 1"
    using assms by simp_all
  then have "\<exists>u. b64 (p / 100) = Fin u \<and> 0 \<le> u \<and> u \<le> 1"
    using b64_val_1 by (intro b64_le_bound) simp_all
  then obtain a where a: "b64 (p / 100) = Fin a" "0 \<le> a" "a \<le> 1"
    by blast
  have "0 \<le> a * 10" "a * 10 \<le> 10"
    using a(2,3) by simp_all
  then have "\<exists>u. b64 (a * 10) = Fin u \<and> 0 \<le> u \<and> u \<le> 10"
    using b64_val_10 by (intro b64_le_bound) simp_all
  then obtain y where y: "b64 (a * 10) = Fin y" "0 \<le> y" "y \<le> 10"
    by blast
  have "float_mul (float_div (Fin p) 100) 10 = Fin y"
    by (simp add: float_div_def float_mul_def a(1) y(1))
  with y show ?thesis
    by blast
qed

lemma battery_bars_finite:
  assumes "py_float parse v = Inr (Fin p)" "0 \<le> p"
    and "float_mul (float_div (Fin p) 100) 10 = Fin y"
    and "\<lfloor>y\<rfloor> \<le> str_limit spare"
  shows "battery_bars parse spare v
           = replicate (nat \<lfloor>y\<rfloor>) SOLID @ replicate (nat (10 - \<lfloor>y\<rfloor>)) LIGHT"
proof -
  have y: "0 \<le> y"
    using assms(2,3) by (rule bar_value_nonneg)
  then have f: "0 \<le> \<lfloor>y\<rfloor>"
    by simp
  have "\<lfloor>y\<rfloor> \<le> PY_SSIZE_T_MAX"
    using assms(4) by (simp add: str_limit_def)
  then have lo: "- PY_SSIZE_T_MAX - 1 \<le> 10 - \<lfloor>y\<rfloor>"
    by simp
  have hi: "10 - \<lfloor>y\<rfloor> \<le> str_limit spare"
    using f str_limit_ge_10 [of spare] by linarith
  have lo': "- PY_SSIZE_T_MAX - 1 \<le> \<lfloor>y\<rfloor>"
    using f by (simp add: PY_SSIZE_T_MAX_def)
  show ?thesis
    using y by (intro bars_of_count [OF assms(1,3) _ lo' assms(4) lo hi]) simp
qed

lemma battery_bars_too_long:
  assumes "py_float parse v = Inr (Fin p)" "0 \<le> p"
    and "float_mul (float_div (Fin p) 100) 10 = Fin y"
    and "str_limit spare < \<lfloor>y\<rfloor>"
  shows "battery_bars parse spare v = NA"
proof -
  have y: "0 \<le> y"
    using assms(2,3) by (rule bar_value_nonneg)
  obtain e where "str_times spare SOLID \<lfloor>y\<rfloor> = Inl e"
    using str_times_too_long [OF assms(4)] by blast
  then show ?thesis
    using assms(1,3) y by (simp add: battery_bars_def float_int_def)
qed

lemma battery_bars_length:
  assumes "py_float parse v = Inr (Fin p)" "0 \<le> p" "p \<le> 100"
  shows "length (battery_bars parse spare v) = 10"
proof -
  obtain y where y: "float_mul (float_div (Fin p) 100) 10 = Fin y" "0 \<le> y" "y \<le> 10"
    using bar_value_range [OF assms(2,3)] by blast
  have f: "0 \<le> \<lfloor>y\<rfloor> \<and> \<lfloor>y\<rfloor> \<le> 10"
    using y(2,3) by (simp add: floor_le_iff)
  then have "\<lfloor>y\<rfloor> \<le> str_limit spare"
    using str_limit_ge_10 [of spare] by linarith
  then have len: "length (battery_bars parse spare v) = nat \<lfloor>y\<rfloor> + nat (10 - \<lfloor>y\<rfloor>)"
    using battery_bars_finite [OF assms(1,2) y(1)] by simp
  show ?thesis
    unfolding len using f by linarith
qed

lemma battery_bars_glyphs:
  assumes "py_float parse v = Inr (Fin p)" "0 \<le> p" "p \<le> 100"
  shows "set (battery_bars parse spare v) \<subseteq> {SOLID, LIGHT}"
proof -
  obtain y where y: "float_mul (float_div (Fin p) 100) 10 = Fin y" "0 \<le> y" "y \<le> 10"
    using bar_value_range [OF assms(2,3)] by blast
  have "\<lfloor>y\<rfloor> \<le> 10"
    using y(3) by (simp add: floor_le_iff)
  then have "\<lfloor>y\<rfloor> \<le> str_limit spare"
    using str_limit_ge_10 [of spare] by linarith
  then show ?thesis
    using battery_bars_finite [OF assms(1,2) y(1)] by auto
qed

lemma battery_bars_not_convertible:
  "py_float parse v = Inl e \<Longrightarrow> battery_bars parse spare v = NA"
  by (simp add: battery_bars_def)

lemma battery_bars_1e20:
  "float_mul (float_div (Fin (10 ^ 20)) 100) 10 = Fin (10 ^ 19)"
  "str_limit spare < \<lfloor>10 ^ 19 :: rat\<rfloor>"
  using b64_large_examples
  by (simp_all add: float_div_def float_mul_def str_limit_def PY_SSIZE_T_MAX_def)

text \<open>
  Claim C7 as stated fails for a negative input: \<open>int\<close> truncates towards zero, where the
  claim takes the floor. For \<open>p = -25\<close> the value \<open>p / 100.0 * 10\<close> is \<open>-2.5\<close>, the
  code builds \<open>int(-2.5) = -2\<close> solid glyphs (none) and \<open>10 - (-2) = 12\<close> light ones; the
  floor \<open>-3\<close> would give 13 light ones.
\<close>

theorem battery_bars_negative_counterexample:
  "py_float example_parse (PInt (- 25)) = Inr (Fin (- 25)) \<and>
   float_mul (float_div (Fin (- 25)) 100) 10 = Fin (- (5 / 2)) \<and>
   battery_bars example_parse example_spare (PInt (- 25)) = replicate 12 LIGHT \<and>
   battery_bars example_parse example_spare (PInt (- 25))
     \<noteq> replicate (nat \<lfloor>- (5 / 2) :: rat\<rfloor>) SOLID @ replicate (nat (10 - \<lfloor>- (5 / 2) :: rat\<rfloor>)) LIGHT"
  by (simp add: py_float_PInt_examples bar_values battery_bars_out_of_range
        floor_ceiling_examples)

text \<open>
  Claim C7, amended. For every input that \<open>float\<close> turns into a number \<open>p \<ge> 0\<close> whose
  value \<open>y = p / 100.0 * 10\<close> (in float arithmetic) is finite: when a string of
  \<open>floor(y)\<close> characters can be built, \<open>battery_bars\<close> is \<open>floor(y)\<close> solid glyphs
  followed by \<open>10 - floor(y)\<close> light glyphs (none when that is negative), and when it cannot
  be built the result is the text \<open>N/A\<close>. For \<open>0 \<le> p \<le> 100\<close> the value \<open>y\<close> is finite
  and between 0 and 10, and the string can be built. \<open>battery_bars(100)\<close> is 10 solid
  glyphs, \<open>battery_bars(0)\<close> is 10 light glyphs, \<open>battery_bars(55)\<close> is 5 solid and 5
  light glyphs. For every input that \<open>float\<close> rejects, the result is the text \<open>N/A\<close>.
\<close>

theorem battery_bars_value:
  "(py_float parse v = Inr (Fin p) \<and> 0 \<le> p \<and> float_mul (float_div (Fin p) 100) 10 = Fin y \<and>
    \<lfloor>y\<rfloor> \<le> str_limit spare \<longrightarrow>
      battery_bars parse spare v
        = replicate (nat \<lfloor>y\<rfloor>) SOLID @ replicate (nat (10 - \<lfloor>y\<rfloor>)) LIGHT) \<and>
   (py_float parse v = Inr (Fin p) \<and> 0 \<le> p \<and> float_mul (float_div (Fin p) 100) 10 = Fin y \<and>
    str_limit spare < \<lfloor>y\<rfloor> \<longrightarrow>
      battery_bars parse spare v = NA) \<and>
   (0 \<le> p \<and> p \<le> 100 \<longrightarrow>
      (\<exists>z. float_mul (float_div (Fin p) 100) 10 = Fin z \<and> 0 \<le> z \<and> z \<le> 10 \<and>
           \<lfloor>z\<rfloor> \<le> str_limit spare)) \<and>
   battery_bars parse spare (PInt 100) = replicate 10 SOLID @ replicate 0 LIGHT \<and>
   battery_bars parse spare (PInt 0) = replicate 0 SOLID @ replicate 10 LIGHT \<and>
   battery_bars parse spare (PInt 55) = replicate 5 SOLID @ replicate 5 LIGHT \<and>
   (py_float parse v = Inl e \<longrightarrow> battery_bars parse spare v = NA)"
proof -
  have range: "\<exists>z. float_mul (float_div (Fin p) 100) 10 = Fin z \<and> 0 \<le> z \<and> z \<le> 10 \<and>
           \<lfloor>z\<rfloor> \<le> str_limit spare" if r: "0 \<le> p" "p \<le> 100"
  proof -
    obtain z where z: "float_mul (float_div (Fin p) 100) 10 = Fin z" "0 \<le> z" "z \<le> 10"
      using bar_value_range [OF r] by blast
    have "\<lfloor>z\<rfloor> \<le> 10"
      using z(3) by (simp add: floor_le_iff)
    then have "\<lfloor>z\<rfloor> \<le> str_limit spare"
      using str_limit_ge_10 [of spare] by linarith
    with z show ?thesis
      by blast
  qed
  show ?thesis
    using battery_bars_finite [of parse v p y spare] battery_bars_too_long [of parse v p y spare]
      battery_bars_not_convertible [of parse v e spare] range
    by (simp add: battery_bars_examples)
qed

theorem battery_bars_value_witness:
  "battery_bars example_parse example_spare (PStr ''50'') = replicate 5 SOLID @ replicate 5 LIGHT \<and>
   battery_bars example_parse example_spare (PFloat (Fin (10 ^ 20))) = NA \<and>
   battery_bars example_parse example_spare (PStr ''full'') = NA \<and>
   battery_bars example_parse example_spare PNone = NA"
  using battery_bars_value [of example_parse "PStr ''50''" 50 5 example_spare TypeError]
    battery_bars_value
      [of example_parse "PFloat (Fin (10 ^ 20))" "10 ^ 20" "10 ^ 19" example_spare TypeError]
    battery_bars_value [of example_parse "PStr ''full''" 0 0 example_spare ValueError]
    battery_bars_value [of example_parse PNone 0 0 example_spare TypeError]
    battery_bars_1e20(1) battery_bars_1e20(2) [of example_spare]
    str_limit_ge_10 [of example_spare]
  by (simp add: py_float_def example_parse_def bar_values)

text \<open>
  Claim C8 as stated fails outside the range 0 to 100: for \<open>p = 150\<close> the bar is 15 solid
  glyphs and no light one, 15 characters.
\<close>

theorem battery_bars_length_counterexample:
  "py_float example_parse (PInt 150) = Inr (Fin 150) \<and>
   battery_bars example_parse example_spare (PInt 150) = replicate 15 SOLID \<and>
   length (battery_bars example_parse example_spare (PInt 150)) \<noteq> 10"
  by (simp add: py_float_PInt_examples battery_bars_out_of_range)

text \<open>
  Claim C8, amended. For every input that \<open>float\<close> turns into a number \<open>p\<close> with
  \<open>0 \<le> p \<le> 100\<close>, the string \<open>battery_bars\<close> returns has exactly 10 characters, each
  one of the two glyphs.
\<close>

theorem battery_bars_ten_glyphs:
  assumes "py_float parse v = Inr (Fin p)" and "0 \<le> p" and "p \<le> 100"
  shows "length (battery_bars parse spare v) = 10 \<and>
         set (battery_bars parse spare v) \<subseteq> {SOLID, LIGHT}"
  using battery_bars_length [OF assms] battery_bars_glyphs [OF assms] by simp

theorem battery_bars_ten_glyphs_witness:
  "length (battery_bars example_parse example_spare (PInt 55)) = 10 \<and>
   length (battery_bars example_parse 0 (PFloat (Fin (199 / 2)))) = 10 \<and>
   length (battery_bars example_parse example_spare (PStr ''50'')) = 10"
  using battery_bars_ten_glyphs [of example_parse "PInt 55" 55 example_spare]
    battery_bars_ten_glyphs [of example_parse "PFloat (Fin (199 / 2))" "199 / 2" 0]
    battery_bars_ten_glyphs [of example_parse "PStr ''50''" 50 example_spare]
  by (simp add: py_float_PInt_examples) (simp add: py_float_def example_parse_def)

text \<open>
  Claim C9 as stated fails where the other field holds a truthy value: with
  \<open>percentage\<close> equal to 0 and \<open>level\<close> equal to 55 the assembler takes
  \<open>0 or 55 = 55\<close>, and the snapshot's \<open>battery_bars\<close> is the bar of 5 solid and 5 light
  glyphs, not the text \<open>N/A\<close>.
\<close>

theorem snapshot_bars_zero_percentage_counterexample:
  "dict_get [(''percentage'', PInt 0), (''level'', PInt 55)] ''percentage'' = PInt 0 \<and>
   collect_full_snapshot_bars example_parse example_spare
      (PDict [(''percentage'', PInt 0), (''level'', PInt 55)])
     = replicate 5 SOLID @ replicate 5 LIGHT \<and>
   collect_full_snapshot_bars example_parse example_spare
      (PDict [(''percentage'', PInt 0), (''level'', PInt 55)]) \<noteq> NA"
proof -
  have "length NA \<noteq> length (replicate 5 SOLID @ replicate 5 LIGHT)"
    by (simp add: NA_def)
  then have "replicate 5 SOLID @ replicate 5 LIGHT \<noteq> NA"
    by (metis (no_types))
  then show ?thesis
    by (simp add: collect_full_snapshot_bars_def dict_get_def py_or_def battery_bars_examples)
qed

text \<open>
  Claim C9, amended. When the battery record has the number 0 as its \<open>percentage\<close> and
  nothing truthy as its \<open>level\<close>, or nothing truthy as its \<open>percentage\<close> and the number 0
  as its \<open>level\<close>, the snapshot's \<open>battery_bars\<close> is the text \<open>N/A\<close>, and not the bar
  of 10 light glyphs that \<open>battery_bars(0)\<close> is.
\<close>

theorem snapshot_bars_zero_percentage:
  assumes "battery = PDict d"
    and "(is_zero (dict_get d ''percentage'') \<and> \<not> truthy (dict_get d ''level'')) \<or>
         (\<not> truthy (dict_get d ''percentage'') \<and> is_zero (dict_get d ''level''))"
  shows "collect_full_snapshot_bars parse spare battery = NA \<and>
         battery_bars parse spare (PInt 0) = replicate 10 LIGHT \<and>
         collect_full_snapshot_bars parse spare battery \<noteq> battery_bars parse spare (PInt 0)"
proof -
  have "\<not> truthy (py_or (dict_get d ''percentage'') (dict_get d ''level''))"
    using assms(2) by (auto simp: py_or_def is_zero_def)
  then have na: "collect_full_snapshot_bars parse spare battery = NA"
    by (simp add: collect_full_snapshot_bars_def assms(1))
  have bar: "battery_bars parse spare (PInt 0) = replicate 10 LIGHT"
    by (rule battery_bars_examples)
  have "length NA \<noteq> length (replicate 10 LIGHT)"
    by (simp add: NA_def)
  then have "NA \<noteq> replicate 10 LIGHT"
    by (metis (no_types))
  with na bar show ?thesis
    by simp
qed

theorem snapshot_bars_zero_percentage_witness:
  "collect_full_snapshot_bars example_parse example_spare
      (PDict [(''health'', PStr ''GOOD''), (''percentage'', PInt 0)]) = NA \<and>
   collect_full_snapshot_bars example_parse example_spare
      (PDict [(''level'', PFloat (Fin 0))]) = NA"
  using snapshot_bars_zero_percentage
          [of "PDict [(''health'', PStr ''GOOD''), (''percentage'', PInt 0)]"
              "[(''health'', PStr ''GOOD''), (''percentage'', PInt 0)]" example_parse
              example_spare]
        snapshot_bars_zero_percentage
          [of "PDict [(''level'', PFloat (Fin 0))]" "[(''level'', PFloat (Fin 0))]" example_parse
              example_spare]
  by (simp add: dict_get_def is_zero_def)

end
